theory Spec2Isabelle
  imports Main "HOL-Library.AList"
begin

section \<open>JavaScript values used by the importer\<close>

text \<open>
  Strings are HOL strings: one \<open>char\<close> stands for one UTF-16 code unit below 256.
  Page numbers, sizes and counts are natural numbers. A \<open>Blob\<close> is its byte sequence.
\<close>

type_synonym blob = string

text \<open>\<open>String(n)\<close> and \<open>n.toString(16)\<close> for a non-negative integer.\<close>

definition digitChar :: "nat \<Rightarrow> char" where
  "digitChar d = (''0123456789abcdef'' ! d)"

fun toStringRadix :: "nat \<Rightarrow> nat \<Rightarrow> string" where
  "toStringRadix r n =
     (if r < 2 \<or> n < r then [digitChar n]
      else toStringRadix r (n div r) @ [digitChar (n mod r)])"

declare toStringRadix.simps [simp del]

definition String :: "nat \<Rightarrow> string" where
  "String n = toStringRadix 10 n"

definition padStart :: "nat \<Rightarrow> char \<Rightarrow> string \<Rightarrow> string" where
  "padStart n c s = replicate (n - length s) c @ s"

definition padEnd :: "nat \<Rightarrow> char \<Rightarrow> string \<Rightarrow> string" where
  "padEnd n c s = s @ replicate (n - length s) c"

definition substring0 :: "nat \<Rightarrow> string \<Rightarrow> string" where
  "substring0 n s = take n s"

definition startsWith :: "string \<Rightarrow> string \<Rightarrow> bool" where
  "startsWith s p = (take (length p) s = p)"

text \<open>
  A JavaScript object with integer keys is an association list in which the first binding of
  a key is the one that counts. \<open>Object.entries\<close> lists integer keys in ascending order.
  A JavaScript \<open>Map\<close> is an association list in insertion order: \<open>set\<close> replaces the
  value of a key in place or appends, \<open>delete\<close> removes.
\<close>

type_synonym 'v jsobject = "(nat \<times> 'v) list"
type_synonym 'v jsmap = "(nat \<times> 'v) list"

definition objectGet :: "'v jsobject \<Rightarrow> nat \<Rightarrow> 'v option" where
  "objectGet obj k = map_of obj k"

definition objectSet :: "nat \<Rightarrow> 'v \<Rightarrow> 'v jsobject \<Rightarrow> 'v jsobject" where
  "objectSet k v obj = AList.update k v obj"

definition objectEntries :: "'v jsobject \<Rightarrow> (nat \<times> 'v) list" where
  "objectEntries obj = sort_key fst (AList.clearjunk obj)"

definition mapGet :: "'v jsmap \<Rightarrow> nat \<Rightarrow> 'v option" where
  "mapGet m k = map_of m k"

definition mapSet :: "nat \<Rightarrow> 'v \<Rightarrow> 'v jsmap \<Rightarrow> 'v jsmap" where
  "mapSet k v m = AList.update k v m"

definition mapDelete :: "nat \<Rightarrow> 'v jsmap \<Rightarrow> 'v jsmap" where
  "mapDelete k m = AList.delete k m"

section \<open>Data model\<close>

record PageInfo =
  fileName :: string
  importDate :: string
  imageHash :: string
  displayImageHash :: "string option"
  geminiProcessed :: bool
  hasAudio :: "bool option"
  lastModified :: "string option"
  sizeBytes :: "nat option"
  backgroundColor :: "string option"

datatype HistoryAction = ActImport | ActUpdate | ActDelete

record ImportHistory =
  histDate :: string
  histAction :: HistoryAction
  histPages :: "nat list"
  histSummary :: string

record ImportManifest =
  bookName :: string
  totalPages :: nat
  importedPages :: "PageInfo jsobject"
  lastImport :: string
  sourceFile :: string
  version :: string
  history :: "ImportHistory list option"

record PageImage =
  imageBlob :: blob
  imageHashNew :: string

record PageAudio =
  audioBlob :: blob
  originalName :: string
  audioName :: string

record 'stroke PageData =
  pageNum :: nat
  pageImage :: PageImage
  stroke :: "'stroke option"
  audio :: "PageAudio option"

text \<open>
  \<open>formattedTimes\<close> stands for the book's \<open>metadata\<close>: the \<open>book_created\<close> and
  \<open>book_updated\<close> lines that \<open>formatDate\<close> yields for it, or the message of the
  exception \<open>formatDate\<close> throws on an invalid date.
\<close>

record 'stroke BookResult =
  bookNameOf :: string
  formattedTimes :: "string + string"
  pages :: "'stroke PageData list"
  thumbnail :: "blob option"

datatype ChangeType = New | Modified | Unchanged | Deleted

record PageChange =
  changePageNum :: nat
  changeType :: ChangeType
  oldHash :: "string option"
  newHash :: "string option"
  hasAudioChange :: "bool option"

record ImportSummary =
  summaryTotalPages :: nat
  newPages :: "nat list"
  modifiedPages :: "nat list"
  unchangedPages :: "nat list"
  deletedPages :: "nat list"
  errors :: "(nat \<times> string) list"

datatype OutputFormat = Png | Svg | Both

record ViwoodsSettings =
  notesFolder :: string
  imagesFolder :: string
  audioFolder :: string
  outputFormat :: OutputFormat
  settingsBackgroundColor :: string
  includeMetadata :: bool
  includeTimestamps :: bool
  createIndex :: bool
  processWithGeminiSetting :: bool
  batchSize :: nat
  keepHistory :: bool
  maxHistoryEntries :: nat

section \<open>The host: vault files and failing calls\<close>

text \<open>
  The vault maps a path to the content of the file stored there. Every call into the host
  can throw: \<open>faults\<close> says, for the vault as it is at the call, whether the call throws
  and with which message.
\<close>

type_synonym path = string
type_synonym vault = "path \<Rightarrow> string option"

datatype HostOp =
    OpRead path
  | OpReadBinary path
  | OpDelete path
  | OpCreate path
  | OpCreateBinary path
  | OpModify path
  | OpAdapterWrite path
  | OpEnsureFolder path
  | OpComposite blob
  | OpGemini blob
  | OpFrontMatter path

type_synonym faults = "vault \<Rightarrow> HostOp \<Rightarrow> string option"

section \<open>Content Fingerprinter\<close>

text \<open>
  \<open>hashImageData\<close>: \<open>digest\<close> is \<open>crypto.subtle.digest('SHA-256', ...)\<close> applied to
  the blob's bytes, \<open>None\<close> when reading the blob or computing the digest throws.
\<close>

definition hexOfBytes :: "string \<Rightarrow> string" where
  "hexOfBytes bs = concat (map (\<lambda>b. padStart 2 (CHR ''0'') (toStringRadix 16 (of_char b))) bs)"

definition hashImageData :: "(blob \<Rightarrow> string option) \<Rightarrow> blob \<Rightarrow> string" where
  "hashImageData digest b =
     (case digest b of
        Some hashBuffer \<Rightarrow> substring0 32 (hexOfBytes hashBuffer)
      | None \<Rightarrow> substring0 32 (padEnd 32 (CHR ''0'') (''fallback-'' @ String (length b))))"

section \<open>Change Analyzer\<close>

definition pageFileName :: "nat \<Rightarrow> string" where
  "pageFileName n = ''Page '' @ padStart 3 (CHR ''0'') (String n) @ ''.md''"

definition bookFolderOf :: "ViwoodsSettings \<Rightarrow> string \<Rightarrow> path" where
  "bookFolderOf settings name = notesFolder settings @ ''/'' @ name"

text \<open>
  The frontmatter pattern \<open>/^---\n([\s\S]*?)\n---/\<close>: the content starts with three dashes
  and a newline, and the group is the text up to the first newline followed by three dashes.
\<close>

fun beforeFirst :: "string \<Rightarrow> string \<Rightarrow> string option" where
  "beforeFirst pat [] = (if pat = [] then Some [] else None)"
| "beforeFirst pat (c # cs) =
     (if startsWith (c # cs) pat then Some []
      else map_option ((#) c) (beforeFirst pat cs))"

definition frontmatterOf :: "string \<Rightarrow> string option" where
  "frontmatterOf content =
     (if startsWith content (''---'' @ [CHR 0x0A])
      then beforeFirst (CHR 0x0A # ''---'') (drop 4 content)
      else None)"

text \<open>
  The pattern \<open>/original_image_hash:\s*"?([a-f0-9]+)"?/\<close>, matched at the first position
  where it fits. After the key, the white space and one optional quote are skipped and the
  group is the longest run of lower-case hexadecimal digits, which must not be empty.
\<close>

definition isSpace :: "char \<Rightarrow> bool" where
  "isSpace c = (of_char c \<in> {9, 10, 11, 12, 13, 32, 160 :: nat})"

definition isHexDigit :: "char \<Rightarrow> bool" where
  "isHexDigit c = (c \<in> set ''0123456789abcdef'')"

definition hashMatchAt :: "string \<Rightarrow> string option" where
  "hashMatchAt s =
     (if startsWith s ''original_image_hash:''
      then (let afterSpace = dropWhile isSpace (drop 20 s);
                afterQuote = (case afterSpace of
                                [] \<Rightarrow> []
                              | c # cs \<Rightarrow> if c = CHR 0x22 then cs else c # cs);
                digits = takeWhile isHexDigit afterQuote
            in if digits = [] then None else Some digits)
      else None)"

fun hashMatch :: "string \<Rightarrow> string option" where
  "hashMatch [] = hashMatchAt []"
| "hashMatch (c # cs) =
     (case hashMatchAt (c # cs) of
        Some h \<Rightarrow> Some h
      | None \<Rightarrow> hashMatch cs)"

text \<open>
  Reading the fingerprint embedded in the page file of one page: the file has to exist, the
  read must not throw, and both patterns have to match.
\<close>

definition readFileHash :: "faults \<Rightarrow> vault \<Rightarrow> path \<Rightarrow> nat \<Rightarrow> string option" where
  "readFileHash fl v bookFolder n =
     (let pagePath = bookFolder @ ''/'' @ pageFileName n in
      case v pagePath of
        None \<Rightarrow> None
      | Some content \<Rightarrow>
          (case fl v (OpRead pagePath) of
             Some err \<Rightarrow> None
           | None \<Rightarrow>
               (case frontmatterOf content of
                  None \<Rightarrow> None
                | Some frontmatter \<Rightarrow> hashMatch frontmatter)))"

record Existing =
  manifestInfo :: PageInfo
  fileHash :: "string option"

text \<open>\<open>existing.fileHash || existing.manifestInfo.imageHash\<close>\<close>

definition existingHashOf :: "Existing \<Rightarrow> string" where
  "existingHashOf e =
     (case fileHash e of
        Some h \<Rightarrow> if h = [] then imageHash (manifestInfo e) else h
      | None \<Rightarrow> imageHash (manifestInfo e))"

definition emptySummary :: "nat \<Rightarrow> ImportSummary" where
  "emptySummary n =
     \<lparr> summaryTotalPages = n, newPages = [], modifiedPages = [], unchangedPages = [],
       deletedPages = [], errors = [] \<rparr>"

definition newChange :: "nat \<Rightarrow> string \<Rightarrow> PageChange" where
  "newChange n h =
     \<lparr> changePageNum = n, changeType = New, oldHash = None, newHash = Some h,
       hasAudioChange = None \<rparr>"

definition populateExisting :: "PageInfo jsobject \<Rightarrow> Existing jsmap" where
  "populateExisting obj =
     foldl (\<lambda>m (n, info). mapSet n \<lparr> manifestInfo = info, fileHash = None \<rparr> m) []
       (objectEntries obj)"

definition readFileHashes :: "faults \<Rightarrow> vault \<Rightarrow> path \<Rightarrow> Existing jsmap \<Rightarrow> Existing jsmap" where
  "readFileHashes fl v bookFolder m =
     map (\<lambda>(n, existing).
            (n, case readFileHash fl v bookFolder n of
                  Some h \<Rightarrow> existing \<lparr> fileHash := Some h \<rparr>
                | None \<Rightarrow> existing)) m"

text \<open>The map of existing pages: populated from the manifest, then from the page files.\<close>

definition buildExistingMap :: "faults \<Rightarrow> vault \<Rightarrow> path \<Rightarrow> PageInfo jsobject \<Rightarrow> Existing jsmap" where
  "buildExistingMap fl v bookFolder obj = readFileHashes fl v bookFolder (populateExisting obj)"

text \<open>One iteration of the loop over the pages of the new import.\<close>

definition checkPage ::
  "'s PageData \<Rightarrow> Existing jsmap \<times> PageChange list \<times> ImportSummary
     \<Rightarrow> Existing jsmap \<times> PageChange list \<times> ImportSummary" where
  "checkPage page st =
     (case st of (existingMap, changes, summary) \<Rightarrow>
        (case mapGet existingMap (pageNum page) of
           None \<Rightarrow>
             (existingMap,
              changes @ [newChange (pageNum page) (imageHashNew (pageImage page))],
              summary \<lparr> newPages := newPages summary @ [pageNum page] \<rparr>)
         | Some existing \<Rightarrow>
             (let existingHash = existingHashOf existing;
                  isRecoveredHash = startsWith existingHash ''recovered-'';
                  isResetHash = startsWith existingHash ''RESET-'';
                  hashesMatch = (existingHash = imageHashNew (pageImage page));
                  audioFlip = ((audio page \<noteq> None)
                                 \<noteq> (hasAudio (manifestInfo existing) = Some True))
              in if isRecoveredHash \<or> isResetHash then
                   (mapDelete (pageNum page) existingMap,
                    changes @ [\<lparr> changePageNum = pageNum page, changeType = Modified,
                                 oldHash = Some existingHash,
                                 newHash = Some (imageHashNew (pageImage page)),
                                 hasAudioChange = Some audioFlip \<rparr>],
                    summary \<lparr> modifiedPages := modifiedPages summary @ [pageNum page] \<rparr>)
                 else if \<not> hashesMatch then
                   (mapDelete (pageNum page) existingMap,
                    changes @ [\<lparr> changePageNum = pageNum page, changeType = Modified,
                                 oldHash = Some existingHash,
                                 newHash = Some (imageHashNew (pageImage page)),
                                 hasAudioChange = Some audioFlip \<rparr>],
                    summary \<lparr> modifiedPages := modifiedPages summary @ [pageNum page] \<rparr>)
                 else
                   (mapDelete (pageNum page) existingMap,
                    changes @ [\<lparr> changePageNum = pageNum page, changeType = Unchanged,
                                 oldHash = Some existingHash,
                                 newHash = Some (imageHashNew (pageImage page)),
                                 hasAudioChange = None \<rparr>],
                    summary \<lparr> unchangedPages := unchangedPages summary @ [pageNum page] \<rparr>))))"

text \<open>The entries left in the map after the loop are the deleted pages.\<close>

definition markDeleted ::
  "nat \<times> Existing \<Rightarrow> PageChange list \<times> ImportSummary \<Rightarrow> PageChange list \<times> ImportSummary" where
  "markDeleted entry st =
     (case st of (changes, summary) \<Rightarrow>
        (changes @ [\<lparr> changePageNum = fst entry, changeType = Deleted,
                      oldHash = Some (existingHashOf (snd entry)), newHash = None,
                      hasAudioChange = None \<rparr>],
         summary \<lparr> deletedPages := deletedPages summary @ [fst entry] \<rparr>))"

definition analyzeChanges ::
  "faults \<Rightarrow> vault \<Rightarrow> ViwoodsSettings \<Rightarrow> 's BookResult \<Rightarrow> ImportManifest option
     \<Rightarrow> PageChange list \<times> ImportSummary" where
  "analyzeChanges fl v settings bookResult existingManifest =
     (let summary0 = emptySummary (length (pages bookResult));
          bookFolder = bookFolderOf settings (bookNameOf bookResult)
      in case existingManifest of
           None \<Rightarrow>
             (map (\<lambda>page. newChange (pageNum page) (imageHashNew (pageImage page)))
                (pages bookResult),
              summary0 \<lparr> newPages := map pageNum (pages bookResult) \<rparr>)
         | Some manifest \<Rightarrow>
             (let existingMap = buildExistingMap fl v bookFolder (importedPages manifest);
                  (remaining, changes, summary) =
                     fold checkPage (pages bookResult) (existingMap, [], summary0)
              in fold markDeleted remaining (changes, summary)))"

section \<open>Manifest history\<close>

text \<open>\<open>addHistoryEntry\<close>: \<open>now\<close> is \<open>new Date().toISOString()\<close>.\<close>

definition historyOf :: "ImportManifest \<Rightarrow> ImportHistory list" where
  "historyOf manifest = (case history manifest of None \<Rightarrow> [] | Some h \<Rightarrow> h)"

definition addHistoryEntry ::
  "ViwoodsSettings \<Rightarrow> string \<Rightarrow> ImportManifest \<Rightarrow> HistoryAction \<Rightarrow> nat list \<Rightarrow> string
     \<Rightarrow> ImportManifest" where
  "addHistoryEntry settings now manifest action pgs summ =
     (if \<not> keepHistory settings then manifest
      else
        (let history0 = (case history manifest of None \<Rightarrow> [] | Some h \<Rightarrow> h);
             history1 = \<lparr> histDate = now, histAction = action, histPages = pgs,
                          histSummary = summ \<rparr> # history0;
             history2 = (if length history1 > maxHistoryEntries settings
                         then take (maxHistoryEntries settings) history1
                         else history1)
         in manifest \<lparr> history := Some history2 \<rparr>))"


section \<open>Import Executor\<close>

text \<open>
  What the executor needs from its environment. \<open>nowISO\<close> is
  \<open>new Date().toISOString()\<close>, taken as one value for the run. \<open>normalizePath\<close> is the
  host's. \<open>compositeBackground\<close> is the canvas compositing of
  \<open>processImageWithBackground\<close>, \<open>bookTagOf\<close> the chain of replacements that turns a
  book name into a tag, \<open>stringifyManifest\<close> is \<open>JSON.stringify\<close>. The Gemini plugin
  is another plugin of the host: whether it is enabled and accessible, what its API returns
  for an image (\<open>None\<close> for an empty result) after trigger processing, and what the
  host's \<open>processFrontMatter\<close> makes of a page file.
\<close>

record 'stroke Host =
  hostFaults :: faults
  nowISO :: string
  normalizePath :: "string \<Rightarrow> string"
  compositeBackground :: "string \<Rightarrow> blob \<Rightarrow> blob"
  strokesToSVG :: "'stroke \<Rightarrow> string"
  bookTagOf :: "string \<Rightarrow> string"
  stringifyManifest :: "ImportManifest \<Rightarrow> string"
  geminiEnabled :: bool
  geminiAccessible :: bool
  callGeminiAPI :: "blob \<Rightarrow> string option"
  processFrontMatter :: "nat \<Rightarrow> ImportManifest \<Rightarrow> string \<Rightarrow> string \<Rightarrow> string"

text \<open>
  A call into the host runs on the vault and either throws, leaving the vault as it is, or
  returns with its effect done. An exception is \<open>Inl\<close> of its message.
\<close>

type_synonym 'a io = "vault \<Rightarrow> (string + 'a) \<times> vault"

definition returnIO :: "'a \<Rightarrow> 'a io" where
  "returnIO a v = (Inr a, v)"

definition bindIO :: "'a io \<Rightarrow> ('a \<Rightarrow> 'b io) \<Rightarrow> 'b io" where
  "bindIO m f v = (case m v of (Inl err, v') \<Rightarrow> (Inl err, v') | (Inr a, v') \<Rightarrow> f a v')"

definition hostCall :: "faults \<Rightarrow> HostOp \<Rightarrow> (vault \<Rightarrow> vault) \<Rightarrow> unit io" where
  "hostCall fl op effect v =
     (case fl v op of Some err \<Rightarrow> (Inl err, v) | None \<Rightarrow> (Inr (), effect v))"

definition isTFile :: "vault \<Rightarrow> path \<Rightarrow> bool" where
  "isTFile v p = (v p \<noteq> None)"

definition vaultDelete :: "faults \<Rightarrow> path \<Rightarrow> unit io" where
  "vaultDelete fl p = hostCall fl (OpDelete p) (\<lambda>v. v(p := None))"

definition vaultCreateBinary :: "faults \<Rightarrow> path \<Rightarrow> blob \<Rightarrow> unit io" where
  "vaultCreateBinary fl p d = hostCall fl (OpCreateBinary p) (\<lambda>v. v(p \<mapsto> d))"

definition vaultCreate :: "faults \<Rightarrow> path \<Rightarrow> string \<Rightarrow> unit io" where
  "vaultCreate fl p c = hostCall fl (OpCreate p) (\<lambda>v. v(p \<mapsto> c))"

definition vaultModify :: "faults \<Rightarrow> path \<Rightarrow> string \<Rightarrow> unit io" where
  "vaultModify fl p c = hostCall fl (OpModify p) (\<lambda>v. v(p \<mapsto> c))"

definition adapterWrite :: "faults \<Rightarrow> path \<Rightarrow> string \<Rightarrow> unit io" where
  "adapterWrite fl p c = hostCall fl (OpAdapterWrite p) (\<lambda>v. v(p \<mapsto> c))"

text \<open>Folders are not part of the vault of files: \<open>ensureFolder\<close> throws or returns.\<close>

definition ensureFolder :: "faults \<Rightarrow> path \<Rightarrow> unit io" where
  "ensureFolder fl p = hostCall fl (OpEnsureFolder p) (\<lambda>v. v)"

definition processImageWithBackground :: "'s Host \<Rightarrow> ViwoodsSettings \<Rightarrow> blob \<Rightarrow> blob io" where
  "processImageWithBackground host settings b =
     (if settingsBackgroundColor settings = []
         \<or> settingsBackgroundColor settings = ''transparent''
         \<or> settingsBackgroundColor settings = ''#FFFFFF''
      then returnIO b
      else bindIO (hostCall (hostFaults host) (OpComposite b) (\<lambda>v. v))
             (\<lambda>_. returnIO (compositeBackground host (settingsBackgroundColor settings) b)))"

definition newline :: string where
  "newline = [CHR 0x0A]"

definition dquote :: string where
  "dquote = [CHR 0x22]"

text \<open>The studio microphone sign of the audio heading, as its UTF-8 bytes.\<close>

definition microphoneSign :: string where
  "microphoneSign = [CHR 0xF0, CHR 0x9F, CHR 0x8E, CHR 0x99, CHR 0xEF, CHR 0xB8, CHR 0x8F]"

definition imageNameOf :: "string \<Rightarrow> nat \<Rightarrow> string" where
  "imageNameOf name n = name @ ''_page_'' @ padStart 3 (CHR ''0'') (String n) @ ''.png''"

definition svgNameOf :: "string \<Rightarrow> nat \<Rightarrow> string" where
  "svgNameOf name n = name @ ''_page_'' @ padStart 3 (CHR ''0'') (String n) @ ''.svg''"

definition imagePathOf :: "'s Host \<Rightarrow> ViwoodsSettings \<Rightarrow> string \<Rightarrow> nat \<Rightarrow> path" where
  "imagePathOf host settings name n =
     normalizePath host
       (bookFolderOf settings name @ ''/'' @ imagesFolder settings @ ''/'' @ imageNameOf name n)"

definition svgPathOf :: "'s Host \<Rightarrow> ViwoodsSettings \<Rightarrow> string \<Rightarrow> nat \<Rightarrow> path" where
  "svgPathOf host settings name n =
     normalizePath host
       (bookFolderOf settings name @ ''/'' @ imagesFolder settings @ ''/'' @ svgNameOf name n)"

definition audioFolderOf :: "ViwoodsSettings \<Rightarrow> string \<Rightarrow> path" where
  "audioFolderOf settings name = bookFolderOf settings name @ ''/'' @ audioFolder settings"

definition pagePathOf :: "ViwoodsSettings \<Rightarrow> string \<Rightarrow> nat \<Rightarrow> path" where
  "pagePathOf settings name n = bookFolderOf settings name @ ''/'' @ pageFileName n"

definition manifestPathOf :: "ViwoodsSettings \<Rightarrow> string \<Rightarrow> path" where
  "manifestPathOf settings name = bookFolderOf settings name @ ''/.import-manifest.json''"

text \<open>The frontmatter of the page document (lines 1976 to 2008); it may throw in \<open>formatDate\<close>.\<close>

definition frontmatterText ::
  "'s Host \<Rightarrow> ViwoodsSettings \<Rightarrow> 's BookResult \<Rightarrow> nat \<Rightarrow> 's PageData \<Rightarrow> bool \<Rightarrow> nat
     \<Rightarrow> string + string" where
  "frontmatterText host settings bookResult totalCount page isModified n =
     (if includeMetadata settings then
        (case (if includeTimestamps settings then formattedTimes bookResult else Inr []) of
           Inl err \<Rightarrow> Inl err
         | Inr timeLines \<Rightarrow>
             Inr (''---'' @ newline
                  @ ''book: '' @ dquote @ bookNameOf bookResult @ dquote @ newline
                  @ ''page: '' @ String n @ newline
                  @ ''total_pages: '' @ String totalCount @ newline
                  @ ''original_image_hash: '' @ dquote @ imageHashNew (pageImage page)
                      @ dquote @ newline
                  @ timeLines
                  @ ''import_date: '' @ nowISO host @ newline
                  @ (if isModified then ''last_modified: '' @ nowISO host @ newline else [])
                  @ (if audio page \<noteq> None then ''has_audio: true'' @ newline else [])
                  @ ''image: '' @ dquote @ imageNameOf (bookNameOf bookResult) n @ dquote
                      @ newline
                  @ ''tags: [viwoods-import, handwritten, ''
                      @ bookTagOf host (bookNameOf bookResult) @ '']'' @ newline
                  @ ''---'' @ newline @ newline))
      else Inr [])"

text \<open>The audio artifact (lines 2010 to 2032): the text it adds to the page document.\<close>

definition audioStep ::
  "'s Host \<Rightarrow> ViwoodsSettings \<Rightarrow> 's BookResult \<Rightarrow> 's PageData \<Rightarrow> bool \<Rightarrow> bool \<Rightarrow> string io" where
  "audioStep host settings bookResult page isNew isModified =
     (case audio page of
        None \<Rightarrow> returnIO []
      | Some a \<Rightarrow>
          bindIO (ensureFolder (hostFaults host) (audioFolderOf settings (bookNameOf bookResult)))
            (\<lambda>_ v.
               (let normalizedAudioPath =
                      normalizePath host
                        (audioFolderOf settings (bookNameOf bookResult) @ ''/'' @ audioName a);
                    written =
                      (if isTFile v normalizedAudioPath then
                         (if isNew \<or> isModified then
                            bindIO (vaultDelete (hostFaults host) normalizedAudioPath)
                              (\<lambda>_. vaultCreateBinary (hostFaults host) normalizedAudioPath
                                      (audioBlob a))
                          else returnIO ())
                       else vaultCreateBinary (hostFaults host) normalizedAudioPath (audioBlob a))
                in bindIO written
                     (\<lambda>_. returnIO (''## '' @ microphoneSign @ '' Audio Recording'' @ newline
                                      @ newline @ ''![['' @ audioName a @ '']]'' @ newline
                                      @ newline @ ''---'' @ newline @ newline)) v)))"

text \<open>
  The image artifact (lines 2034 to 2082). \<open>imageTry\<close> is the inner \<open>try\<close> block up to
  the assignment of \<open>imageFile\<close>; \<open>imageStep\<close> adds the \<open>catch\<close>, which keeps the
  exception inside this step. The step yields the text for the page document and the
  entries pushed onto \<open>imageFilesToProcess\<close>.
\<close>

definition backgroundChangedOf :: "ViwoodsSettings \<Rightarrow> PageInfo option \<Rightarrow> bool" where
  "backgroundChangedOf settings existing =
     (case existing of
        None \<Rightarrow> True
      | Some info \<Rightarrow> backgroundColor info \<noteq> Some (settingsBackgroundColor settings))"

definition imageTry ::
  "'s Host \<Rightarrow> ViwoodsSettings \<Rightarrow> 's BookResult \<Rightarrow> 's PageData \<Rightarrow> bool \<Rightarrow> bool
     \<Rightarrow> PageInfo option \<Rightarrow> path io" where
  "imageTry host settings bookResult page isNew isModified existing v =
     (let normalizedImagePath = imagePathOf host settings (bookNameOf bookResult) (pageNum page);
          needsImageUpdate = (isNew \<or> isModified);
          backgroundChanged = backgroundChangedOf settings existing
      in if isTFile v normalizedImagePath then
           (if needsImageUpdate \<or> backgroundChanged then
              bindIO (processImageWithBackground host settings (imageBlob (pageImage page)))
                (\<lambda>processedImage.
                   bindIO (vaultDelete (hostFaults host) normalizedImagePath)
                     (\<lambda>_. bindIO (vaultCreateBinary (hostFaults host) normalizedImagePath
                                    processedImage)
                            (\<lambda>_. returnIO normalizedImagePath))) v
            else returnIO normalizedImagePath v)
         else
           bindIO (processImageWithBackground host settings (imageBlob (pageImage page)))
             (\<lambda>processedImage.
                bindIO (vaultCreateBinary (hostFaults host) normalizedImagePath processedImage)
                  (\<lambda>_. returnIO normalizedImagePath)) v)"

definition imageStep ::
  "'s Host \<Rightarrow> ViwoodsSettings \<Rightarrow> 's BookResult \<Rightarrow> 's PageData \<Rightarrow> bool \<Rightarrow> bool
     \<Rightarrow> PageInfo option \<Rightarrow> vault \<Rightarrow> (string \<times> (path \<times> nat) list) \<times> vault" where
  "imageStep host settings bookResult page isNew isModified existing v =
     (if outputFormat settings = Png \<or> outputFormat settings = Both then
        (case imageTry host settings bookResult page isNew isModified existing v of
           (Inr imageFile, v') \<Rightarrow>
             (if processWithGeminiSetting settings \<and> (isNew \<or> isModified) then
                ((''![['' @ imageNameOf (bookNameOf bookResult) (pageNum page) @ '']]''
                    @ newline @ newline
                    @ ''<!-- GEMINI_PLACEHOLDER_'' @ String (pageNum page) @ '' -->''
                    @ newline @ newline,
                  [(imageFile, pageNum page)]), v')
              else
                ((''![['' @ imageNameOf (bookNameOf bookResult) (pageNum page) @ '']]''
                    @ newline @ newline, []), v'))
         | (Inl imageError, v') \<Rightarrow>
             ((''*[Image failed to import]*'' @ newline @ newline, []), v'))
      else (([], []), v))"

text \<open>The vector artifact (lines 2084 to 2107).\<close>

definition svgStep ::
  "'s Host \<Rightarrow> ViwoodsSettings \<Rightarrow> 's BookResult \<Rightarrow> 's PageData \<Rightarrow> bool \<Rightarrow> bool \<Rightarrow> string io" where
  "svgStep host settings bookResult page isNew isModified v =
     (case stroke page of
        Some strokes \<Rightarrow>
          (if outputFormat settings = Svg \<or> outputFormat settings = Both then
             (let svgContent = strokesToSVG host strokes;
                  normalizedSvgPath = svgPathOf host settings (bookNameOf bookResult) (pageNum page);
                  written =
                    (if isTFile v normalizedSvgPath then
                       (if isNew \<or> isModified
                        then vaultModify (hostFaults host) normalizedSvgPath svgContent
                        else returnIO ())
                     else vaultCreate (hostFaults host) normalizedSvgPath svgContent)
              in bindIO written
                   (\<lambda>_. returnIO
                      (if outputFormat settings \<noteq> Both
                       then ''![Page '' @ String (pageNum page) @ '']('' @ imagesFolder settings
                              @ ''/'' @ svgNameOf (bookNameOf bookResult) (pageNum page) @ '')''
                              @ newline @ newline
                       else [])) v)
           else returnIO [] v)
      | None \<Rightarrow> returnIO [] v)"

text \<open>Saving the page document (lines 2109 to 2118).\<close>

definition savePageFile :: "'s Host \<Rightarrow> path \<Rightarrow> string \<Rightarrow> unit io" where
  "savePageFile host pagePath pageContent v =
     (if isTFile v pagePath
      then vaultModify (hostFaults host) pagePath pageContent v
      else vaultCreate (hostFaults host) pagePath pageContent v)"

text \<open>
  The body of the \<open>try\<close> block of one page, from the frontmatter to the saved page
  document: whether it threw, the entries pushed onto \<open>imageFilesToProcess\<close>, the vault.
\<close>

definition pageBody ::
  "'s Host \<Rightarrow> ViwoodsSettings \<Rightarrow> 's BookResult \<Rightarrow> nat \<Rightarrow> 's PageData \<Rightarrow> bool \<Rightarrow> bool
     \<Rightarrow> PageInfo option \<Rightarrow> vault \<Rightarrow> (string + unit) \<times> (path \<times> nat) list \<times> vault" where
  "pageBody host settings bookResult totalCount page isNew isModified existing v =
     (case frontmatterText host settings bookResult totalCount page isModified (pageNum page) of
        Inl err \<Rightarrow> (Inl err, [], v)
      | Inr frontmatter \<Rightarrow>
          (case audioStep host settings bookResult page isNew isModified v of
             (Inl err, v1) \<Rightarrow> (Inl err, [], v1)
           | (Inr audioText, v1) \<Rightarrow>
               (case imageStep host settings bookResult page isNew isModified existing v1 of
                  ((imageText, files), v2) \<Rightarrow>
                    (case svgStep host settings bookResult page isNew isModified v2 of
                       (Inl err, v3) \<Rightarrow> (Inl err, files, v3)
                     | (Inr svgText, v3) \<Rightarrow>
                         (case savePageFile host
                                 (pagePathOf settings (bookNameOf bookResult) (pageNum page))
                                 (frontmatter @ audioText @ imageText @ svgText) v3 of
                            (Inl err, v4) \<Rightarrow> (Inl err, files, v4)
                          | (Inr _, v4) \<Rightarrow> (Inr (), files, v4))))))"

record RunState =
  rsVault :: vault
  rsManifest :: ImportManifest
  rsSummary :: ImportSummary
  rsImageFiles :: "(path \<times> nat) list"
  rsSaves :: "ImportManifest list"

text \<open>
  \<open>rsSaves\<close> lists the manifests handed to \<open>saveManifest\<close> so far, oldest first.
  \<open>hadManifest\<close> says that \<open>existingManifest\<close> is not null; it is then the very
  object \<open>manifest\<close>, so reading it reads the manifest of the state.
\<close>

text \<open>
  The \<open>try\<close> block of a page as the callback runs it on a state: with the entry read
  through \<open>existingManifest\<close>, and \<open>isNew\<close> and \<open>isModified\<close> computed from it.
\<close>

definition existingEntry :: "bool \<Rightarrow> RunState \<Rightarrow> nat \<Rightarrow> PageInfo option" where
  "existingEntry hadManifest st n =
     (if hadManifest then objectGet (importedPages (rsManifest st)) n else None)"

definition pageTry ::
  "'s Host \<Rightarrow> ViwoodsSettings \<Rightarrow> 's BookResult \<Rightarrow> bool \<Rightarrow> 's PageData \<Rightarrow> RunState
     \<Rightarrow> (string + unit) \<times> (path \<times> nat) list \<times> vault" where
  "pageTry host settings bookResult hadManifest page st =
     (let existing = existingEntry hadManifest st (pageNum page)
      in pageBody host settings bookResult (totalPages (rsManifest st)) page
           (existing = None)
           (map_option imageHash existing \<noteq> Some (imageHashNew (pageImage page)))
           existing (rsVault st))"

text \<open>The manifest entry the callback writes for a page it processed without exception.\<close>

definition updatedEntry ::
  "'s Host \<Rightarrow> ViwoodsSettings \<Rightarrow> 's PageData \<Rightarrow> ImportManifest \<Rightarrow> PageInfo" where
  "updatedEntry host settings page manifest =
     \<lparr> fileName = pageFileName (pageNum page),
       importDate = nowISO host,
       imageHash = imageHashNew (pageImage page),
       displayImageHash = None,
       geminiProcessed =
         (case objectGet (importedPages manifest) (pageNum page) of
            Some info \<Rightarrow> geminiProcessed info
          | None \<Rightarrow> False),
       hasAudio = Some (audio page \<noteq> None),
       lastModified = Some (nowISO host),
       sizeBytes = Some (length (imageBlob (pageImage page))),
       backgroundColor = Some (settingsBackgroundColor settings) \<rparr>"

text \<open>
  One call of the page callback (lines 1953 to 2136). The callbacks of a batch are run one
  after the other, in the order of the batch.
\<close>

definition processPage ::
  "'s Host \<Rightarrow> ViwoodsSettings \<Rightarrow> 's BookResult \<Rightarrow> bool \<Rightarrow> nat \<Rightarrow> RunState \<Rightarrow> RunState" where
  "processPage host settings bookResult hadManifest n st =
     (case find (\<lambda>p. pageNum p = n) (pages bookResult) of
        None \<Rightarrow> st
      | Some page \<Rightarrow>
          (let existing = existingEntry hadManifest st n;
               isNew = (existing = None);
               isModified = (map_option imageHash existing \<noteq> Some (imageHashNew (pageImage page)));
               summary = rsSummary st;
               summary1 =
                 (if isNew then summary \<lparr> newPages := newPages summary @ [n] \<rparr>
                  else if isModified then summary \<lparr> modifiedPages := modifiedPages summary @ [n] \<rparr>
                  else summary \<lparr> unchangedPages := unchangedPages summary @ [n] \<rparr>)
           in case pageTry host settings bookResult hadManifest page st of
                (Inr u, files, v') \<Rightarrow>
                  st \<lparr> rsVault := v',
                       rsImageFiles := rsImageFiles st @ files,
                       rsSummary := summary1,
                       rsManifest := (rsManifest st)
                         \<lparr> importedPages :=
                             objectSet n (updatedEntry host settings page (rsManifest st))
                               (importedPages (rsManifest st)) \<rparr> \<rparr>
              | (Inl err, files, v') \<Rightarrow>
                  st \<lparr> rsVault := v',
                       rsImageFiles := rsImageFiles st @ files,
                       rsSummary := summary1 \<lparr> errors := errors summary1 @ [(n, err)] \<rparr> \<rparr>))"

text \<open>
  The batches (lines 1949 to 2142): \<open>slice (batchStart, min (batchStart + batchSize) length)\<close>
  of the selection, then the next batch. With a batch size of zero the loop of the source
  never ends; the model then has no result.
\<close>

definition sliceOf :: "'a list \<Rightarrow> nat \<Rightarrow> nat \<Rightarrow> 'a list" where
  "sliceOf xs a b = take (b - a) (drop a xs)"

partial_function (option) batchLoop ::
  "'s Host \<Rightarrow> ViwoodsSettings \<Rightarrow> 's BookResult \<Rightarrow> bool \<Rightarrow> nat list \<Rightarrow> nat \<Rightarrow> RunState
     \<Rightarrow> RunState option" where
  "batchLoop host settings bookResult hadManifest pagesToImport batchStart st =
     (if batchStart < length pagesToImport then
        batchLoop host settings bookResult hadManifest pagesToImport
          (batchStart + batchSize settings)
          (fold (processPage host settings bookResult hadManifest)
             (sliceOf pagesToImport batchStart
                (min (batchStart + batchSize settings) (length pagesToImport))) st)
      else Some st)"

text \<open>
  \<open>saveManifest\<close> (lines 1602 to 1629) never throws: a failed write falls back to the
  adapter, and a failure of the fallback is only logged.
\<close>

definition dirnameOf :: "path \<Rightarrow> path" where
  "dirnameOf p =
     (if CHR ''/'' \<in> set p then rev (tl (dropWhile (\<lambda>c. c \<noteq> CHR ''/'') (rev p))) else [])"

definition saveManifest :: "'s Host \<Rightarrow> path \<Rightarrow> ImportManifest \<Rightarrow> RunState \<Rightarrow> RunState" where
  "saveManifest host manifestPath manifest st =
     (let content = stringifyManifest host manifest;
          v = rsVault st;
          firstTry = (if isTFile v manifestPath
                      then vaultModify (hostFaults host) manifestPath content v
                      else vaultCreate (hostFaults host) manifestPath content v);
          v2 = (case firstTry of
                  (Inr _, v1) \<Rightarrow> v1
                | (Inl err, v1) \<Rightarrow>
                    snd (bindIO (ensureFolder (hostFaults host) (dirnameOf manifestPath))
                           (\<lambda>_. adapterWrite (hostFaults host) manifestPath content) v1))
      in st \<lparr> rsVault := v2, rsSaves := rsSaves st @ [manifest] \<rparr>)"

text \<open>\<open>createBookIndex\<close> (lines 2214 to 2242).\<close>

definition createBookIndex :: "'s Host \<Rightarrow> path \<Rightarrow> string \<Rightarrow> unit io" where
  "createBookIndex host bookFolder name v =
     (let indexPath = bookFolder @ ''/Index.md'';
          indexContent =
            ''---'' @ newline @ ''cssclasses: cards'' @ newline @ ''---'' @ newline @ newline
            @ ''```dataview'' @ newline
            @ ''TABLE embed(link(image))'' @ newline
            @ ''FROM #'' @ bookTagOf host name @ newline
            @ ''SORT page ASC'' @ newline
            @ ''```'' @ newline
      in if isTFile v indexPath
         then vaultModify (hostFaults host) indexPath indexContent v
         else vaultCreate (hostFaults host) indexPath indexContent v)"

text \<open>
  \<open>processWithGemini\<close> (lines 2244 to 2354). Every exception of the work on one image is
  caught and logged. The pass ends by saving the manifest and rebuilding the index.
\<close>

fun replaceFirst :: "string \<Rightarrow> string \<Rightarrow> string \<Rightarrow> string" where
  "replaceFirst pat rep [] = (if pat = [] then rep else [])"
| "replaceFirst pat rep (c # cs) =
     (if startsWith (c # cs) pat then rep @ drop (length pat) (c # cs)
      else c # replaceFirst pat rep cs)"

definition markGeminiProcessed :: "nat \<Rightarrow> ImportManifest \<Rightarrow> ImportManifest" where
  "markGeminiProcessed n manifest =
     (case objectGet (importedPages manifest) n of
        Some info \<Rightarrow>
          manifest \<lparr> importedPages :=
                       objectSet n (info \<lparr> geminiProcessed := True \<rparr>) (importedPages manifest) \<rparr>
      | None \<Rightarrow> manifest)"

definition geminiPage :: "'s Host \<Rightarrow> path \<Rightarrow> path \<times> nat \<Rightarrow> RunState \<Rightarrow> RunState" where
  "geminiPage host bookFolder entry st =
     (let file = fst entry; n = snd entry; v = rsVault st; fl = hostFaults host in
      case (if fl v (OpReadBinary file) = None then v file else None) of
        None \<Rightarrow> st
      | Some imageData \<Rightarrow>
          (case (if fl v (OpGemini imageData) = None then callGeminiAPI host imageData else None) of
             None \<Rightarrow> st
           | Some processedText \<Rightarrow>
               (let pagePath = bookFolder @ ''/'' @ pageFileName n in
                case v pagePath of
                  None \<Rightarrow> st
                | Some content \<Rightarrow>
                    (if fl v (OpRead pagePath) \<noteq> None then st
                     else
                       (let replaced =
                              replaceFirst (''<!-- GEMINI_PLACEHOLDER_'' @ String n @ '' -->'')
                                (''---'' @ newline @ ''### Gemini Transcription'' @ newline
                                   @ processedText @ newline @ ''---'') content
                        in case vaultModify fl pagePath replaced v of
                             (Inl err, v1) \<Rightarrow> st \<lparr> rsVault := v1 \<rparr>
                           | (Inr _, v1) \<Rightarrow>
                               (case hostCall fl (OpFrontMatter pagePath)
                                       (\<lambda>w. w(pagePath \<mapsto>
                                                processFrontMatter host n (rsManifest st)
                                                  processedText replaced)) v1 of
                                  (Inl err, v2) \<Rightarrow> st \<lparr> rsVault := v2 \<rparr>
                                | (Inr _, v2) \<Rightarrow>
                                    st \<lparr> rsVault := v2,
                                         rsManifest := markGeminiProcessed n (rsManifest st) \<rparr>))))))"

definition processWithGemini ::
  "'s Host \<Rightarrow> ViwoodsSettings \<Rightarrow> path \<Rightarrow> (path \<times> nat) list \<Rightarrow> RunState
     \<Rightarrow> (string + unit) \<times> RunState" where
  "processWithGemini host settings bookFolder imageFiles st =
     (if \<not> geminiEnabled host then (Inr (), st)
      else if \<not> geminiAccessible host then (Inr (), st)
      else
        (let st1 = fold (geminiPage host bookFolder) imageFiles st;
             st2 = saveManifest host (bookFolder @ ''/.import-manifest.json'') (rsManifest st1) st1
         in if createIndex settings then
              (case createBookIndex host bookFolder (bookName (rsManifest st2)) (rsVault st2) of
                 (Inl err, v') \<Rightarrow> (Inl err, st2 \<lparr> rsVault := v' \<rparr>)
               | (Inr _, v') \<Rightarrow> (Inr (), st2 \<lparr> rsVault := v' \<rparr>))
            else (Inr (), st2)))"

text \<open>
  \<open>importSelectedPagesWithProgress\<close> (lines 1906 to 2164). The result is \<open>None\<close> when
  the batch loop does not end, otherwise the summary or the exception the run is rejected
  with, together with the state the run leaves behind.
\<close>

definition initialManifest :: "'s Host \<Rightarrow> 's BookResult \<Rightarrow> ImportManifest" where
  "initialManifest host bookResult =
     \<lparr> bookName = bookNameOf bookResult, totalPages = 0, importedPages = [],
       lastImport = nowISO host, sourceFile = bookNameOf bookResult, version = ''1.1'',
       history = Some [] \<rparr>"

definition startState ::
  "'s Host \<Rightarrow> 's BookResult \<Rightarrow> nat list \<Rightarrow> ImportManifest option \<Rightarrow> vault \<Rightarrow> RunState" where
  "startState host bookResult pagesToImport existingManifest v =
     (let manifest = (case existingManifest of
                        Some m \<Rightarrow> m
                      | None \<Rightarrow> initialManifest host bookResult)
      in \<lparr> rsVault = v,
           rsManifest = manifest \<lparr> totalPages := max (totalPages manifest)
                                                    (length (pages bookResult)) \<rparr>,
           rsSummary = emptySummary (length pagesToImport),
           rsImageFiles = [],
           rsSaves = [] \<rparr>)"

definition historyMessage :: "ImportSummary \<Rightarrow> string" where
  "historyMessage summary =
     ''Imported '' @ String (length (newPages summary)) @ '' new, ''
       @ String (length (modifiedPages summary)) @ '' modified pages''"

definition finishRun ::
  "'s Host \<Rightarrow> ViwoodsSettings \<Rightarrow> 's BookResult \<Rightarrow> nat list \<Rightarrow> RunState
     \<Rightarrow> (string + ImportSummary) \<times> RunState" where
  "finishRun host settings bookResult pagesToImport st1 =
     (let bookFolder = bookFolderOf settings (bookNameOf bookResult);
          st2 = st1 \<lparr> rsManifest :=
                        addHistoryEntry settings (nowISO host) (rsManifest st1) ActImport
                          pagesToImport (historyMessage (rsSummary st1)) \<rparr>;
          indexed = (if createIndex settings
                     then createBookIndex host bookFolder (bookNameOf bookResult) (rsVault st2)
                     else (Inr (), rsVault st2))
      in case indexed of
           (Inl err, v') \<Rightarrow> (Inl err, st2 \<lparr> rsVault := v' \<rparr>)
         | (Inr _, v') \<Rightarrow>
             (let st3 = saveManifest host (manifestPathOf settings (bookNameOf bookResult))
                          (rsManifest st2) (st2 \<lparr> rsVault := v' \<rparr>)
              in if processWithGeminiSetting settings \<and> rsImageFiles st3 \<noteq> [] then
                   (case processWithGemini host settings bookFolder (rsImageFiles st3) st3 of
                      (Inl err, st4) \<Rightarrow> (Inl err, st4)
                    | (Inr _, st4) \<Rightarrow> (Inr (rsSummary st4), st4))
                 else (Inr (rsSummary st3), st3)))"

definition importSelectedPagesWithProgress ::
  "'s Host \<Rightarrow> ViwoodsSettings \<Rightarrow> 's BookResult \<Rightarrow> nat list \<Rightarrow> ImportManifest option \<Rightarrow> vault
     \<Rightarrow> ((string + ImportSummary) \<times> RunState) option" where
  "importSelectedPagesWithProgress host settings bookResult pagesToImport existingManifest v =
     (let bookFolder = bookFolderOf settings (bookNameOf bookResult);
          st0 = startState host bookResult pagesToImport existingManifest v
      in case bindIO (ensureFolder (hostFaults host) bookFolder)
                (\<lambda>_. ensureFolder (hostFaults host)
                        (bookFolder @ ''/'' @ imagesFolder settings)) v of
           (Inl err, v') \<Rightarrow>
             Some (Inl err,
                   \<lparr> rsVault = v',
                     rsManifest = (case existingManifest of
                                     Some m \<Rightarrow> m
                                   | None \<Rightarrow> initialManifest host bookResult),
                     rsSummary = emptySummary (length pagesToImport),
                     rsImageFiles = [], rsSaves = [] \<rparr>)
         | (Inr _, v') \<Rightarrow>
             (case batchLoop host settings bookResult (existingManifest \<noteq> None) pagesToImport 0
                     (st0 \<lparr> rsVault := v' \<rparr>) of
                None \<Rightarrow> None
              | Some st1 \<Rightarrow> Some (finishRun host settings bookResult pagesToImport st1)))"

section \<open>Example inputs\<close>

definition exampleSettings :: ViwoodsSettings where
  "exampleSettings =
     \<lparr> notesFolder = ''Viwoods Notes'', imagesFolder = ''Images'', audioFolder = ''Audio'',
       outputFormat = Png, settingsBackgroundColor = ''#FFFFFF'', includeMetadata = True,
       includeTimestamps = True, createIndex = True, processWithGeminiSetting = False,
       batchSize = 10, keepHistory = True, maxHistoryEntries = 50 \<rparr>"

definition examplePageInfo :: "string \<Rightarrow> PageInfo" where
  "examplePageInfo h =
     \<lparr> fileName = ''Page.md'', importDate = ''2025-01-01'', imageHash = h,
       displayImageHash = None, geminiProcessed = False, hasAudio = None,
       lastModified = None, sizeBytes = None, backgroundColor = None \<rparr>"

definition exampleManifest :: "PageInfo jsobject \<Rightarrow> ImportManifest" where
  "exampleManifest ps =
     \<lparr> bookName = ''Book'', totalPages = length ps, importedPages = ps,
       lastImport = ''2025-01-01'', sourceFile = ''Book'', version = ''1.1'',
       history = None \<rparr>"

definition examplePage :: "nat \<Rightarrow> string \<Rightarrow> unit PageData" where
  "examplePage n h =
     \<lparr> pageNum = n, pageImage = \<lparr> imageBlob = ''img'', imageHashNew = h \<rparr>,
       stroke = None, audio = None \<rparr>"

definition exampleBook :: "unit PageData list \<Rightarrow> unit BookResult" where
  "exampleBook ps =
     \<lparr> bookNameOf = ''Book'', formattedTimes = Inr [], pages = ps, thumbnail = None \<rparr>"

definition examplePageFile :: "string \<Rightarrow> string" where
  "examplePageFile h =
     ''---'' @ [CHR 0x0A] @ ''book: '' @ [CHR 0x22] @ ''Book'' @ [CHR 0x22, CHR 0x0A]
     @ ''page: 1'' @ [CHR 0x0A]
     @ ''original_image_hash: '' @ [CHR 0x22] @ h @ [CHR 0x22, CHR 0x0A]
     @ ''---'' @ [CHR 0x0A, CHR 0x0A] @ ''![[Book_page_001.png]]'' @ [CHR 0x0A]"

definition exampleVault :: "string \<Rightarrow> vault" where
  "exampleVault h =
     (\<lambda>p. if p = ''Viwoods Notes/Book/Page 001.md'' then Some (examplePageFile h) else None)"

definition noFaults :: faults where
  "noFaults = (\<lambda>v op. None)"

definition decodedPage :: "(blob \<Rightarrow> string option) \<Rightarrow> nat \<Rightarrow> blob \<Rightarrow> unit PageData" where
  "decodedPage digest n b =
     \<lparr> pageNum = n, pageImage = \<lparr> imageBlob = b, imageHashNew = hashImageData digest b \<rparr>,
       stroke = None, audio = None \<rparr>"

definition exampleHistory :: "string \<Rightarrow> ImportHistory" where
  "exampleHistory d =
     \<lparr> histDate = d, histAction = ActImport, histPages = [1], histSummary = ''Imported'' \<rparr>"


definition exampleHost :: "unit Host" where
  "exampleHost =
     \<lparr> hostFaults = noFaults, nowISO = ''2025-03-01T00:00:00.000Z'',
       normalizePath = (\<lambda>p. p), compositeBackground = (\<lambda>color b. b),
       strokesToSVG = (\<lambda>s. ''<svg/>''), bookTagOf = (\<lambda>name. ''book''),
       stringifyManifest = (\<lambda>m. bookName m), geminiEnabled = True,
       geminiAccessible = True, callGeminiAPI = (\<lambda>b. Some ''transcribed''),
       processFrontMatter = (\<lambda>n m t content. content) \<rparr>"

definition geminiSettings :: ViwoodsSettings where
  "geminiSettings = exampleSettings \<lparr> processWithGeminiSetting := True \<rparr>"

text \<open>
  A manifest entry written by an earlier import with the white background, a vault that has
  the page document and the image of page 1, and hosts in which one call throws: the
  creation of a page document, the creation of an image file, and a modification of a page
  document that fails only as long as the index does not exist.
\<close>

definition unchangedInfo :: PageInfo where
  "unchangedInfo = (examplePageInfo ''aa'') \<lparr> backgroundColor := Some ''#FFFFFF'' \<rparr>"

definition exampleVaultWithImage :: vault where
  "exampleVaultWithImage =
     (\<lambda>p. if p = ''Viwoods Notes/Book/Page 001.md'' then Some (examplePageFile ''aa'')
          else if p = ''Viwoods Notes/Book/Images/Book_page_001.png'' then Some ''old image''
          else None)"

definition pageFaultHost :: "unit Host" where
  "pageFaultHost =
     exampleHost \<lparr> hostFaults :=
       (\<lambda>v op. if op = OpCreate ''Viwoods Notes/Book/Page 002.md'' then Some ''disk full''
               else None) \<rparr>"

definition imageFaultHost :: "unit Host" where
  "imageFaultHost =
     exampleHost \<lparr> hostFaults :=
       (\<lambda>v op. if op = OpCreateBinary ''Viwoods Notes/Book/Images/Book_page_001.png''
               then Some ''disk full'' else None) \<rparr>"

definition threePageBook :: "unit BookResult" where
  "threePageBook = exampleBook [examplePage 1 ''aa'', examplePage 2 ''bb'', examplePage 3 ''cc'']"

definition transientFaultHost :: "unit Host" where
  "transientFaultHost =
     exampleHost \<lparr> hostFaults :=
       (\<lambda>v op. if op = OpModify ''Viwoods Notes/Book/Page 001.md''
                   \<and> v ''Viwoods Notes/Book/Index.md'' = None
               then Some ''file busy'' else None) \<rparr>"

text \<open>A book of one page whose digest cannot be computed.\<close>

definition fallbackBook :: "unit BookResult" where
  "fallbackBook = exampleBook [decodedPage (\<lambda>b. None) 1 ''abc'']"

section \<open>Lemmas about the Change Analyzer\<close>

lemma foldl_mapSet_map_of:
  "distinct (map fst es) \<Longrightarrow>
   map_of (foldl (\<lambda>m (n, info). mapSet n (f info) m) m0 es) k =
     (case map_of es k of Some i \<Rightarrow> Some (f i) | None \<Rightarrow> map_of m0 k)"
proof (induction es arbitrary: m0)
  case Nil then show ?case by simp
next
  case (Cons e es)
  obtain n i where e: "e = (n, i)" by (cases e)
  from Cons.prems have d: "distinct (map fst es)" and nn: "n \<notin> fst ` set es" by (auto simp: e)
  have none: "k = n \<Longrightarrow> map_of es k = None" using nn by (simp add: map_of_eq_None_iff)
  show ?case using Cons.IH[OF d, of "mapSet n (f i) m0"] none
    by (auto simp: e mapSet_def update_conv' split: option.splits)
qed

lemma foldl_mapSet_keys:
  "fst ` set (foldl (\<lambda>m (n, info). mapSet n (f info) m) m0 es) = fst ` set m0 \<union> fst ` set es"
proof (induction es arbitrary: m0)
  case Nil then show ?case by simp
next
  case (Cons e es)
  obtain n i where e: "e = (n, i)" by (cases e)
  have "fst ` set (mapSet n (f i) m0) = {n} \<union> fst ` set m0"
    by (simp add: mapSet_def dom_update)
  then show ?case using Cons.IH[of "mapSet n (f i) m0"] by (auto simp: e)
qed

lemma objectEntries_distinct: "distinct (map fst (objectEntries obj))"
  unfolding objectEntries_def
  by (metis distinct_clearjunk distinct_map distinct_sort set_sort sort_key_def)

lemma objectEntries_set: "set (objectEntries obj) = set (AList.clearjunk obj)"
  by (simp add: objectEntries_def)

lemma objectEntries_map_of: "map_of (objectEntries obj) = map_of obj"
proof -
  have "map_of (objectEntries obj) = map_of (AList.clearjunk obj)"
    by (rule map_of_inject_set[THEN iffD2]) (simp_all add: objectEntries_distinct objectEntries_set)
  then show ?thesis by (simp add: map_of_clearjunk)
qed

lemma populateExisting_get:
  "mapGet (populateExisting obj) k =
     map_option (\<lambda>info. \<lparr> manifestInfo = info, fileHash = None \<rparr>) (objectGet obj k)"
  unfolding populateExisting_def mapGet_def objectGet_def
  by (simp add: foldl_mapSet_map_of[OF objectEntries_distinct] objectEntries_map_of split: option.splits)

lemma populateExisting_keys: "fst ` set (populateExisting obj) = fst ` set obj"
  unfolding populateExisting_def
  by (simp add: foldl_mapSet_keys objectEntries_set dom_clearjunk)

lemma readFileHashes_keys: "map fst (readFileHashes fl v bf m) = map fst m"
  unfolding readFileHashes_def by (induction m) auto

lemma readFileHashes_get:
  "mapGet (readFileHashes fl v bf m) k =
     map_option (\<lambda>e. case readFileHash fl v bf k of Some h \<Rightarrow> e \<lparr> fileHash := Some h \<rparr> | None \<Rightarrow> e)
       (mapGet m k)"
  unfolding readFileHashes_def mapGet_def by (induction m) (auto split: option.splits)

lemma buildExistingMap_get:
  "mapGet (buildExistingMap fl v bf obj) k =
     map_option (\<lambda>info. \<lparr> manifestInfo = info, fileHash = readFileHash fl v bf k \<rparr>) (objectGet obj k)"
  unfolding buildExistingMap_def
  by (cases "objectGet obj k"; cases "readFileHash fl v bf k")
     (simp_all add: readFileHashes_get populateExisting_get)

lemma buildExistingMap_keys: "fst ` set (buildExistingMap fl v bf obj) = fst ` set obj"
  unfolding buildExistingMap_def
  by (metis populateExisting_keys readFileHashes_keys set_map)

lemma checkPage_absent:
  "mapGet m (pageNum p) = None \<Longrightarrow>
   checkPage p (m, ch, s) =
     (m, ch @ [newChange (pageNum p) (imageHashNew (pageImage p))],
      s \<lparr> newPages := newPages s @ [pageNum p] \<rparr>)"
  by (simp add: checkPage_def)

lemma checkPage_present:
  assumes "mapGet m (pageNum p) = Some e"
  shows "\<exists>c s'. checkPage p (m, ch, s) = (mapDelete (pageNum p) m, ch @ [c], s')
     \<and> changePageNum c = pageNum p
     \<and> oldHash c = Some (existingHashOf e)
     \<and> newHash c = Some (imageHashNew (pageImage p))
     \<and> changeType c =
         (if startsWith (existingHashOf e) ''recovered-'' \<or> startsWith (existingHashOf e) ''RESET-''
          then Modified
          else if existingHashOf e \<noteq> imageHashNew (pageImage p) then Modified else Unchanged)
     \<and> s' = (if changeType c = Modified
              then s \<lparr> modifiedPages := modifiedPages s @ [pageNum p] \<rparr>
              else s \<lparr> unchangedPages := unchangedPages s @ [pageNum p] \<rparr>)"
  using assms by (simp add: checkPage_def Let_def)


lemma mapDelete_get: "mapGet (mapDelete k m) j = (if j = k then None else mapGet m j)"
  by (simp add: mapGet_def mapDelete_def delete_conv)

lemma mapDelete_keys: "fst ` set (mapDelete k m) = fst ` set m - {k}"
proof -
  have "set (map fst (AList.delete k m)) = set (map fst m) - {k}"
    by (simp add: delete_keys)
  then show ?thesis by (simp add: mapDelete_def)
qed

lemma mapGet_None_keys: "mapGet m k = None \<longleftrightarrow> k \<notin> fst ` set m"
  by (simp add: mapGet_def map_of_eq_None_iff)

lemma checkPage_map:
  "fst (checkPage p (m, ch, s)) = mapDelete (pageNum p) m"
proof (cases "mapGet m (pageNum p)")
  case None
  then have "mapDelete (pageNum p) m = m"
    by (simp add: mapDelete_def mapGet_def delete_id map_of_eq_None_iff)
  with None show ?thesis by (simp add: checkPage_absent)
next
  case (Some e)
  from checkPage_present[OF Some, of ch s] show ?thesis by auto
qed

lemma fold_checkPage_map:
  "fold checkPage ps (m, ch, s) = (m', ch', s') \<Longrightarrow>
   mapGet m' k = (if k \<in> pageNum ` set ps then None else mapGet m k)"
proof (induction ps arbitrary: m ch s)
  case Nil then show ?case by simp
next
  case (Cons p ps)
  obtain m1 ch1 s1 where st: "checkPage p (m, ch, s) = (m1, ch1, s1)" by (cases "checkPage p (m, ch, s)")
  have m1: "m1 = mapDelete (pageNum p) m" using checkPage_map[of p m ch s] st by simp
  from Cons.prems st have "fold checkPage ps (m1, ch1, s1) = (m', ch', s')" by simp
  from Cons.IH[OF this] show ?case by (auto simp: m1 mapDelete_get)
qed

lemma fold_checkPage_keys:
  "fold checkPage ps (m, ch, s) = (m', ch', s') \<Longrightarrow>
   fst ` set m' = fst ` set m - pageNum ` set ps"
proof (induction ps arbitrary: m ch s)
  case Nil then show ?case by simp
next
  case (Cons p ps)
  obtain m1 ch1 s1 where st: "checkPage p (m, ch, s) = (m1, ch1, s1)" by (cases "checkPage p (m, ch, s)")
  have m1: "m1 = mapDelete (pageNum p) m" using checkPage_map[of p m ch s] st by simp
  from Cons.prems st have "fold checkPage ps (m1, ch1, s1) = (m', ch', s')" by simp
  from Cons.IH[OF this] show ?case by (auto simp: m1 mapDelete_keys)
qed

text \<open>What one iteration adds: exactly one change record and exactly one summary entry.\<close>

lemma checkPage_step:
  assumes "checkPage p (m, ch, s) = (m1, ch1, s1)"
  shows "\<exists>c. ch1 = ch @ [c] \<and> changePageNum c = pageNum p
            \<and> newHash c = Some (imageHashNew (pageImage p))
            \<and> deletedPages s1 = deletedPages s \<and> errors s1 = errors s
            \<and> summaryTotalPages s1 = summaryTotalPages s
            \<and> (case mapGet m (pageNum p) of
                  None \<Rightarrow> changeType c = New \<and> oldHash c = None
                    \<and> newPages s1 = newPages s @ [pageNum p]
                    \<and> modifiedPages s1 = modifiedPages s \<and> unchangedPages s1 = unchangedPages s
                | Some e \<Rightarrow> oldHash c = Some (existingHashOf e)
                    \<and> newPages s1 = newPages s
                    \<and> (if startsWith (existingHashOf e) ''recovered-''
                           \<or> startsWith (existingHashOf e) ''RESET-''
                           \<or> existingHashOf e \<noteq> imageHashNew (pageImage p)
                        then changeType c = Modified
                          \<and> modifiedPages s1 = modifiedPages s @ [pageNum p]
                          \<and> unchangedPages s1 = unchangedPages s
                        else changeType c = Unchanged
                          \<and> modifiedPages s1 = modifiedPages s
                          \<and> unchangedPages s1 = unchangedPages s @ [pageNum p]))"
proof (cases "mapGet m (pageNum p)")
  case None
  with assms show ?thesis by (auto simp: checkPage_absent newChange_def)
next
  case (Some e)
  from checkPage_present[OF Some, of ch s] assms show ?thesis
    by (auto simp: Some split: if_splits)
qed


lemma fold_checkPage_grow:
  "fold checkPage ps (m, ch, s) = (m', ch', s') \<Longrightarrow>
   \<exists>cs a b c. ch' = ch @ cs \<and> newPages s' = newPages s @ a
     \<and> modifiedPages s' = modifiedPages s @ b \<and> unchangedPages s' = unchangedPages s @ c
     \<and> set a \<union> set b \<union> set c = pageNum ` set ps
     \<and> length a + length b + length c = length ps
     \<and> map changePageNum cs = map pageNum ps
     \<and> (\<forall>x\<in>set cs. changeType x \<noteq> Deleted)
     \<and> deletedPages s' = deletedPages s \<and> errors s' = errors s
     \<and> summaryTotalPages s' = summaryTotalPages s"
proof (induction ps arbitrary: m ch s)
  case Nil then show ?case by simp
next
  case (Cons p ps)
  obtain m1 ch1 s1 where st: "checkPage p (m, ch, s) = (m1, ch1, s1)" by (cases "checkPage p (m, ch, s)")
  from Cons.prems st have rest: "fold checkPage ps (m1, ch1, s1) = (m', ch', s')" by simp
  from Cons.IH[OF rest] obtain cs a b c where ih:
    "ch' = ch1 @ cs" "newPages s' = newPages s1 @ a"
    "modifiedPages s' = modifiedPages s1 @ b" "unchangedPages s' = unchangedPages s1 @ c"
    "set a \<union> set b \<union> set c = pageNum ` set ps"
    "length a + length b + length c = length ps"
    "map changePageNum cs = map pageNum ps"
    "\<forall>x\<in>set cs. changeType x \<noteq> Deleted"
    "deletedPages s' = deletedPages s1" "errors s' = errors s1"
    "summaryTotalPages s' = summaryTotalPages s1" by blast
  from checkPage_step[OF st] obtain c0 where c0:
    "ch1 = ch @ [c0]" "changePageNum c0 = pageNum p"
    "deletedPages s1 = deletedPages s" "errors s1 = errors s"
    "summaryTotalPages s1 = summaryTotalPages s"
    and cases: "(changeType c0 = New \<and> newPages s1 = newPages s @ [pageNum p]
          \<and> modifiedPages s1 = modifiedPages s \<and> unchangedPages s1 = unchangedPages s)
       \<or> (changeType c0 = Modified \<and> newPages s1 = newPages s
          \<and> modifiedPages s1 = modifiedPages s @ [pageNum p] \<and> unchangedPages s1 = unchangedPages s)
       \<or> (changeType c0 = Unchanged \<and> newPages s1 = newPages s
          \<and> modifiedPages s1 = modifiedPages s \<and> unchangedPages s1 = unchangedPages s @ [pageNum p])"
    by (auto split: option.splits if_splits)
  from cases consider
      (n) "changeType c0 = New" "newPages s1 = newPages s @ [pageNum p]"
          "modifiedPages s1 = modifiedPages s" "unchangedPages s1 = unchangedPages s"
    | (mo) "changeType c0 = Modified" "newPages s1 = newPages s"
          "modifiedPages s1 = modifiedPages s @ [pageNum p]" "unchangedPages s1 = unchangedPages s"
    | (u) "changeType c0 = Unchanged" "newPages s1 = newPages s"
          "modifiedPages s1 = modifiedPages s" "unchangedPages s1 = unchangedPages s @ [pageNum p]"
    by blast
  then show ?case
  proof cases
    case n
    show ?thesis
      apply (rule exI[of _ "c0 # cs"], rule exI[of _ "pageNum p # a"], rule exI[of _ b], rule exI[of _ c])
      using ih c0 n by auto
  next
    case mo
    show ?thesis
      apply (rule exI[of _ "c0 # cs"], rule exI[of _ a], rule exI[of _ "pageNum p # b"], rule exI[of _ c])
      using ih c0 mo by auto
  next
    case u
    show ?thesis
      apply (rule exI[of _ "c0 # cs"], rule exI[of _ a], rule exI[of _ b], rule exI[of _ "pageNum p # c"])
      using ih c0 u by auto
  qed
qed

lemma fold_markDeleted:
  "fold markDeleted rem (ch, s) =
     (ch @ map (\<lambda>entry. \<lparr> changePageNum = fst entry, changeType = Deleted,
                          oldHash = Some (existingHashOf (snd entry)), newHash = None,
                          hasAudioChange = None \<rparr>) rem,
      s \<lparr> deletedPages := deletedPages s @ map fst rem \<rparr>)"
  by (induction rem arbitrary: ch s) (simp_all add: markDeleted_def)

lemma checkPage_step_change:
  assumes "checkPage p (m, ch, s) = (m1, ch1, s1)"
  shows "\<exists>c0. ch1 = ch @ [c0] \<and> changePageNum c0 = pageNum p
       \<and> newHash c0 = Some (imageHashNew (pageImage p))
       \<and> (case mapGet m (pageNum p) of
                  None \<Rightarrow> changeType c0 = New \<and> oldHash c0 = None
                | Some e \<Rightarrow> oldHash c0 = Some (existingHashOf e)
                    \<and> changeType c0 = (if startsWith (existingHashOf e) ''recovered-''
                           \<or> startsWith (existingHashOf e) ''RESET-''
                           \<or> existingHashOf e \<noteq> imageHashNew (pageImage p)
                        then Modified else Unchanged))"
proof (cases "mapGet m (pageNum p)")
  case None
  with assms show ?thesis by (auto simp: checkPage_absent newChange_def)
next
  case (Some e)
  from checkPage_present[OF Some, of ch s] assms show ?thesis
    by (auto simp: Some split: if_splits)
qed

text \<open>Every change record the loop adds is explained by a page of the book and the map.\<close>

lemma fold_checkPage_origin:
  "fold checkPage ps (m, ch, s) = (m', ch', s') \<Longrightarrow> x \<in> set ch' \<Longrightarrow>
   x \<in> set ch \<or>
   (\<exists>p\<in>set ps. changePageNum x = pageNum p \<and> newHash x = Some (imageHashNew (pageImage p))
      \<and> (case mapGet m (pageNum p) of
            None \<Rightarrow> changeType x = New \<and> oldHash x = None
          | Some e \<Rightarrow> (changeType x = New \<and> oldHash x = None)
              \<or> (oldHash x = Some (existingHashOf e)
                  \<and> changeType x =
                      (if startsWith (existingHashOf e) ''recovered-''
                          \<or> startsWith (existingHashOf e) ''RESET-''
                          \<or> existingHashOf e \<noteq> imageHashNew (pageImage p)
                       then Modified else Unchanged))))"
proof (induction ps arbitrary: m ch s)
  case Nil then show ?case by simp
next
  case (Cons p ps)
  obtain m1 ch1 s1 where st: "checkPage p (m, ch, s) = (m1, ch1, s1)" by (cases "checkPage p (m, ch, s)")
  have m1: "m1 = mapDelete (pageNum p) m" using checkPage_map[of p m ch s] st by simp
  from Cons.prems st have rest: "fold checkPage ps (m1, ch1, s1) = (m', ch', s')" by simp
  from Cons.IH[OF rest Cons.prems(2)] consider
      (old) "x \<in> set ch1"
    | (later) q where "q \<in> set ps" "changePageNum x = pageNum q"
        "newHash x = Some (imageHashNew (pageImage q))"
        "case mapGet m1 (pageNum q) of
            None \<Rightarrow> changeType x = New \<and> oldHash x = None
          | Some e \<Rightarrow> (changeType x = New \<and> oldHash x = None)
              \<or> (oldHash x = Some (existingHashOf e)
                  \<and> changeType x =
                      (if startsWith (existingHashOf e) ''recovered-''
                          \<or> startsWith (existingHashOf e) ''RESET-''
                          \<or> existingHashOf e \<noteq> imageHashNew (pageImage q)
                       then Modified else Unchanged))"
    by blast
  then show ?case
  proof cases
    case old
    from checkPage_step_change[OF st] obtain c0 where c0: "ch1 = ch @ [c0]" "changePageNum c0 = pageNum p"
       "newHash c0 = Some (imageHashNew (pageImage p))"
       "case mapGet m (pageNum p) of
                  None \<Rightarrow> changeType c0 = New \<and> oldHash c0 = None
                | Some e \<Rightarrow> oldHash c0 = Some (existingHashOf e)
                    \<and> changeType c0 = (if startsWith (existingHashOf e) ''recovered-''
                           \<or> startsWith (existingHashOf e) ''RESET-''
                           \<or> existingHashOf e \<noteq> imageHashNew (pageImage p)
                        then Modified else Unchanged)"
      by blast
    from old c0(1) have "x \<in> set ch \<or> x = c0" by auto
    then show ?thesis
    proof
      assume "x \<in> set ch" then show ?thesis by simp
    next
      assume "x = c0"
      with c0 have "\<exists>p'\<in>set (p # ps). changePageNum x = pageNum p' \<and> newHash x = Some (imageHashNew (pageImage p'))
      \<and> (case mapGet m (pageNum p') of
            None \<Rightarrow> changeType x = New \<and> oldHash x = None
          | Some e \<Rightarrow> (changeType x = New \<and> oldHash x = None)
              \<or> (oldHash x = Some (existingHashOf e)
                  \<and> changeType x =
                      (if startsWith (existingHashOf e) ''recovered-''
                          \<or> startsWith (existingHashOf e) ''RESET-''
                          \<or> existingHashOf e \<noteq> imageHashNew (pageImage p')
                       then Modified else Unchanged)))"
        by (intro bexI[of _ p]) (auto split: option.splits)
      then show ?thesis by blast
    qed
  next
    case later
    have "case mapGet m (pageNum q) of
            None \<Rightarrow> changeType x = New \<and> oldHash x = None
          | Some e \<Rightarrow> (changeType x = New \<and> oldHash x = None)
              \<or> (oldHash x = Some (existingHashOf e)
                  \<and> changeType x =
                      (if startsWith (existingHashOf e) ''recovered-''
                          \<or> startsWith (existingHashOf e) ''RESET-''
                          \<or> existingHashOf e \<noteq> imageHashNew (pageImage q)
                       then Modified else Unchanged))"
      using later(4) by (auto simp: m1 mapDelete_get split: option.splits if_splits)
    with later(1-3) show ?thesis by (intro disjI2 bexI[of _ q]) auto
  qed
qed


text \<open>The first page of the book with a given number meets the entry of the map.\<close>

lemma fold_checkPage_first:
  "fold checkPage ps (m, ch, s) = (m', ch', s') \<Longrightarrow>
   find (\<lambda>p. pageNum p = n) ps = Some page \<Longrightarrow> mapGet m n = Some e \<Longrightarrow>
   (\<exists>c\<in>set ch'. changePageNum c = n \<and> oldHash c = Some (existingHashOf e)
       \<and> newHash c = Some (imageHashNew (pageImage page))
       \<and> changeType c =
           (if startsWith (existingHashOf e) ''recovered-''
               \<or> startsWith (existingHashOf e) ''RESET-''
               \<or> existingHashOf e \<noteq> imageHashNew (pageImage page)
            then Modified else Unchanged))
   \<and> (if startsWith (existingHashOf e) ''recovered-''
               \<or> startsWith (existingHashOf e) ''RESET-''
               \<or> existingHashOf e \<noteq> imageHashNew (pageImage page)
      then n \<in> set (modifiedPages s') else n \<in> set (unchangedPages s'))"
proof (induction ps arbitrary: m ch s)
  case Nil then show ?case by simp
next
  case (Cons p ps)
  obtain m1 ch1 s1 where st: "checkPage p (m, ch, s) = (m1, ch1, s1)" by (cases "checkPage p (m, ch, s)")
  have m1: "m1 = mapDelete (pageNum p) m" using checkPage_map[of p m ch s] st by simp
  from Cons.prems(1) st have rest: "fold checkPage ps (m1, ch1, s1) = (m', ch', s')" by simp
  show ?case
  proof (cases "pageNum p = n")
    case True
    with Cons.prems(2) have pg: "page = p" by simp
    from fold_checkPage_grow[OF rest] obtain cs a b c where g:
      "ch' = ch1 @ cs" "modifiedPages s' = modifiedPages s1 @ b"
      "unchangedPages s' = unchangedPages s1 @ c" by blast
    from Cons.prems(3) True have pe: "mapGet m (pageNum p) = Some e" by simp
    from checkPage_present[OF pe, of ch s] st obtain c0 where c0:
      "ch1 = ch @ [c0]" "changePageNum c0 = pageNum p"
      "oldHash c0 = Some (existingHashOf e)"
      "newHash c0 = Some (imageHashNew (pageImage p))"
      "changeType c0 =
         (if startsWith (existingHashOf e) ''recovered-'' \<or> startsWith (existingHashOf e) ''RESET-''
          then Modified
          else if existingHashOf e \<noteq> imageHashNew (pageImage p) then Modified else Unchanged)"
      "s1 = (if changeType c0 = Modified
              then s \<lparr> modifiedPages := modifiedPages s @ [pageNum p] \<rparr>
              else s \<lparr> unchangedPages := unchangedPages s @ [pageNum p] \<rparr>)"
      by auto
    let ?special = "startsWith (existingHashOf e) ''recovered-''
               \<or> startsWith (existingHashOf e) ''RESET-''
               \<or> existingHashOf e \<noteq> imageHashNew (pageImage p)"
    have ty: "changeType c0 = (if ?special then Modified else Unchanged)"
      unfolding c0(5) by (simp only: if_not_P if_P split: if_splits) blast
    have mem: "if ?special then n \<in> set (modifiedPages s') else n \<in> set (unchangedPages s')"
    proof (cases ?special)
      case True
      have "changeType c0 = Modified" using ty True by (simp only: if_True)
      then have "modifiedPages s1 = modifiedPages s @ [pageNum p]" using c0(6) by simp
      then have "n \<in> set (modifiedPages s')" using g(2) \<open>pageNum p = n\<close> by simp
      then show ?thesis using True by (simp only: if_True)
    next
      case False
      have "changeType c0 = Unchanged" using ty False by (simp only: if_False)
      then have "unchangedPages s1 = unchangedPages s @ [pageNum p]" using c0(6) by simp
      then have "n \<in> set (unchangedPages s')" using g(3) \<open>pageNum p = n\<close> by simp
      then show ?thesis using False by (simp only: if_False)
    qed
    have inch: "c0 \<in> set ch'" using g(1) c0(1) by simp
    have "changePageNum c0 = n \<and> oldHash c0 = Some (existingHashOf e)
       \<and> newHash c0 = Some (imageHashNew (pageImage page))
       \<and> changeType c0 =
           (if startsWith (existingHashOf e) ''recovered-''
               \<or> startsWith (existingHashOf e) ''RESET-''
               \<or> existingHashOf e \<noteq> imageHashNew (pageImage page)
            then Modified else Unchanged)"
      using c0(2,3,4) ty \<open>pageNum p = n\<close> unfolding pg by blast
    with inch mem show ?thesis unfolding pg by blast
  next
    case False
    with Cons.prems(2) have f: "find (\<lambda>p. pageNum p = n) ps = Some page" by simp
    from False Cons.prems(3) have "mapGet m1 n = Some e" by (simp add: m1 mapDelete_get)
    from Cons.IH[OF rest f this] show ?thesis .
  qed
qed

lemma fold_checkPage_unchanged_origin:
  "fold checkPage ps (m, ch, s) = (m', ch', s') \<Longrightarrow> n \<in> set (unchangedPages s') \<Longrightarrow>
   n \<in> set (unchangedPages s) \<or>
   (\<exists>e. mapGet m n = Some e \<and> \<not> startsWith (existingHashOf e) ''recovered-''
        \<and> \<not> startsWith (existingHashOf e) ''RESET-''
        \<and> (\<exists>p\<in>set ps. pageNum p = n \<and> existingHashOf e = imageHashNew (pageImage p)))"
proof (induction ps arbitrary: m ch s)
  case Nil then show ?case by simp
next
  case (Cons p ps)
  obtain m1 ch1 s1 where st: "checkPage p (m, ch, s) = (m1, ch1, s1)" by (cases "checkPage p (m, ch, s)")
  have m1: "m1 = mapDelete (pageNum p) m" using checkPage_map[of p m ch s] st by simp
  from Cons.prems(1) st have rest: "fold checkPage ps (m1, ch1, s1) = (m', ch', s')" by simp
  from Cons.IH[OF rest Cons.prems(2)] consider
      (old) "n \<in> set (unchangedPages s1)"
    | (later) e where "mapGet m1 n = Some e" "\<not> startsWith (existingHashOf e) ''recovered-''"
        "\<not> startsWith (existingHashOf e) ''RESET-''"
        "\<exists>p\<in>set ps. pageNum p = n \<and> existingHashOf e = imageHashNew (pageImage p)"
    by blast
  then show ?case
  proof cases
    case old
    from checkPage_step[OF st] have
      "unchangedPages s1 = unchangedPages s \<or>
       (\<exists>e. mapGet m (pageNum p) = Some e \<and> \<not> startsWith (existingHashOf e) ''recovered-''
          \<and> \<not> startsWith (existingHashOf e) ''RESET-''
          \<and> existingHashOf e = imageHashNew (pageImage p)
          \<and> unchangedPages s1 = unchangedPages s @ [pageNum p])"
      by (auto split: option.splits if_splits)
    with old show ?thesis by auto
  next
    case later
    from later(1) have "mapGet m n = Some e" by (simp add: m1 mapDelete_get split: if_splits)
    with later show ?thesis by auto
  qed
qed

lemma analyzeChanges_Some:
  assumes "fold checkPage (pages b)
             (buildExistingMap fl v (bookFolderOf settings (bookNameOf b)) (importedPages manifest),
              [], emptySummary (length (pages b))) = (rem, ch, s)"
  shows "analyzeChanges fl v settings b (Some manifest) =
     (ch @ map (\<lambda>entry. \<lparr> changePageNum = fst entry, changeType = Deleted,
                          oldHash = Some (existingHashOf (snd entry)), newHash = None,
                          hasAudioChange = None \<rparr>) rem,
      s \<lparr> deletedPages := deletedPages s @ map fst rem \<rparr>)"
  using assms by (simp add: analyzeChanges_def Let_def fold_markDeleted)

lemma find_first_page:
  "page \<in> set ps \<Longrightarrow> \<exists>q. find (\<lambda>p. pageNum p = pageNum page) ps = Some q \<and> pageNum q = pageNum page"
  by (induction ps) auto

lemma emptySummary_lists [simp]:
  "newPages (emptySummary k) = []" "modifiedPages (emptySummary k) = []"
  "unchangedPages (emptySummary k) = []" "deletedPages (emptySummary k) = []"
  "errors (emptySummary k) = []" "summaryTotalPages (emptySummary k) = k"
  by (simp_all add: emptySummary_def)

lemma hashMatchAt_hex: "hashMatchAt s = Some h \<Longrightarrow> h \<noteq> [] \<and> (\<forall>c\<in>set h. isHexDigit c)"
  by (auto simp: hashMatchAt_def Let_def split: if_splits dest: set_takeWhileD)

lemma hashMatch_hex: "hashMatch s = Some h \<Longrightarrow> h \<noteq> [] \<and> (\<forall>c\<in>set h. isHexDigit c)"
proof (induction s)
  case Nil then show ?case using hashMatchAt_hex[of "[]" h] by simp
next
  case (Cons c cs)
  then show ?case using hashMatchAt_hex[of "c # cs" h] by (auto split: option.splits)
qed

lemma readFileHash_hex:
  "readFileHash fl v bf n = Some h \<Longrightarrow> h \<noteq> [] \<and> (\<forall>c\<in>set h. isHexDigit c)"
  by (auto simp: readFileHash_def Let_def split: option.splits dest: hashMatch_hex)

lemma hex_not_special:
  assumes "h \<noteq> []" "\<forall>c\<in>set h. isHexDigit c"
  shows "\<not> startsWith h ''recovered-''" "\<not> startsWith h ''RESET-''"
proof -
  obtain c cs where h: "h = c # cs" using assms(1) by (cases h) auto
  with assms(2) have hx: "isHexDigit c" by simp
  have "\<not> isHexDigit (CHR ''r'')" "\<not> isHexDigit (CHR ''R'')" by (simp_all add: isHexDigit_def)
  with hx have "c \<noteq> CHR ''r''" "c \<noteq> CHR ''R''" by auto
  then show "\<not> startsWith h ''recovered-''" "\<not> startsWith h ''RESET-''"
    by (simp_all add: startsWith_def h)
qed

lemma find_Some_set: "find P xs = Some x \<Longrightarrow> x \<in> set xs \<and> P x"
  by (induction xs) (auto split: if_splits)

section \<open>Lemmas about fingerprints\<close>

lemma digitChar_hex: "d < 16 \<Longrightarrow> isHexDigit (digitChar d)"
  unfolding isHexDigit_def digitChar_def by (rule nth_mem) simp

lemma toStringRadix16_hex: "\<forall>c\<in>set (toStringRadix 16 n). isHexDigit c"
proof (induction "16::nat" n rule: toStringRadix.induct)
  case (1 n)
  show ?case
  proof (cases "n < 16")
    case True
    then show ?thesis by (simp add: toStringRadix.simps[of 16 n] digitChar_hex)
  next
    case False
    then have "toStringRadix 16 n = toStringRadix 16 (n div 16) @ [digitChar (n mod 16)]"
      by (simp add: toStringRadix.simps[of 16 n])
    moreover have "\<forall>c\<in>set (toStringRadix 16 (n div 16)). isHexDigit c"
      using 1 False by simp
    ultimately show ?thesis by (simp add: digitChar_hex)
  qed
qed

lemma hexOfBytes_hex: "\<forall>c\<in>set (hexOfBytes bs). isHexDigit c"
proof -
  have z: "isHexDigit (CHR ''0'')" by (simp add: isHexDigit_def)
  show ?thesis using toStringRadix16_hex z by (auto simp: hexOfBytes_def padStart_def)
qed

lemma digest_hex:
  "digest b = Some hashBuffer \<Longrightarrow> \<forall>c\<in>set (hashImageData digest b). isHexDigit c"
  using hexOfBytes_hex by (auto simp: hashImageData_def substring0_def dest: in_set_takeD)

lemma fallback_prefix:
  "digest b = None \<Longrightarrow> startsWith (hashImageData digest b) ''fallback-''"
  by (simp add: hashImageData_def substring0_def padEnd_def startsWith_def)

lemma fallback_length:
  "digest b = None \<Longrightarrow> length (hashImageData digest b) = 32"
  by (simp add: hashImageData_def substring0_def padEnd_def)

lemma startsWith_append: "startsWith s p \<Longrightarrow> \<exists>r. s = p @ r"
  unfolding startsWith_def by (metis append_take_drop_id)

lemma fallback_prefix_not_hex:
  assumes "startsWith h ''fallback-''"
  shows "\<not> (\<forall>c\<in>set h. isHexDigit c)" "\<not> startsWith h ''recovered-''" "\<not> startsWith h ''RESET-''"
proof -
  from startsWith_append[OF assms] obtain r where h: "h = ''fallback-'' @ r" by blast
  then have "CHR ''l'' \<in> set h" by simp
  moreover have "\<not> isHexDigit (CHR ''l'')" by (simp add: isHexDigit_def)
  ultimately show "\<not> (\<forall>c\<in>set h. isHexDigit c)" by blast
  show "\<not> startsWith h ''recovered-''" "\<not> startsWith h ''RESET-''"
    by (simp_all add: startsWith_def h)
qed

section \<open>Lemmas about the Import Executor\<close>

lemma sliceOf_drop:
  "k < length xs \<Longrightarrow>
   sliceOf xs k (min (k + bs) (length xs)) @ drop (k + bs) xs = drop k xs"
proof -
  assume k: "k < length xs"
  let ?j = "min (k + bs) (length xs) - k"
  have "take ?j (drop k xs) @ drop ?j (drop k xs) = drop k xs"
    by (rule append_take_drop_id)
  moreover have "drop ?j (drop k xs) = drop (k + bs) xs"
  proof (cases "k + bs \<le> length xs")
    case True
    then have "?j = bs" by simp
    then show ?thesis by (simp only: drop_drop add.commute)
  next
    case False
    then have j: "?j = length xs - k" by simp
    have "drop ?j (drop k xs) = []" unfolding j by simp
    moreover have "drop (k + bs) xs = []" using False by simp
    ultimately show ?thesis by simp
  qed
  ultimately show ?thesis by (simp add: sliceOf_def)
qed

lemma batchLoop_fold:
  assumes "0 < batchSize settings"
  shows "batchLoop host settings bookResult hadManifest sel k st
           = Some (fold (processPage host settings bookResult hadManifest) (drop k sel) st)"
proof (induction "length sel - k" arbitrary: k st rule: less_induct)
  case less
  show ?case
  proof (cases "k < length sel")
    case False
    then show ?thesis by (simp add: batchLoop.simps)
  next
    case True
    let ?P = "processPage host settings bookResult hadManifest"
    let ?b = "sliceOf sel k (min (k + batchSize settings) (length sel))"
    have dec: "length sel - (k + batchSize settings) < length sel - k"
      using True assms by simp
    have "batchLoop host settings bookResult hadManifest sel k st
            = batchLoop host settings bookResult hadManifest sel (k + batchSize settings)
                (fold ?P ?b st)"
      using True by (subst batchLoop.simps) simp
    also have "\<dots> = Some (fold ?P (drop (k + batchSize settings) sel) (fold ?P ?b st))"
      by (rule less[OF dec])
    also have "fold ?P (drop (k + batchSize settings) sel) (fold ?P ?b st)
                = fold ?P (?b @ drop (k + batchSize settings) sel) st" by simp
    also have "?b @ drop (k + batchSize settings) sel = drop k sel"
      by (rule sliceOf_drop[OF True])
    finally show ?thesis .
  qed
qed

lemma processPage_totalPages:
  "totalPages (rsManifest (processPage host settings bookResult hadManifest n st))
     = totalPages (rsManifest st)"
  by (simp add: processPage_def Let_def split: option.splits prod.splits sum.splits)

lemma processPage_saves:
  "rsSaves (processPage host settings bookResult hadManifest n st) = rsSaves st"
  by (simp add: processPage_def Let_def split: option.splits prod.splits sum.splits)

lemma fold_processPage_totalPages:
  "totalPages (rsManifest (fold (processPage host settings bookResult hadManifest) ns st))
     = totalPages (rsManifest st)"
  by (induction ns arbitrary: st) (simp_all add: processPage_totalPages)

lemma fold_processPage_saves:
  "rsSaves (fold (processPage host settings bookResult hadManifest) ns st) = rsSaves st"
  by (induction ns arbitrary: st) (simp_all add: processPage_saves)

lemma addHistoryEntry_totalPages:
  "totalPages (addHistoryEntry settings now m a ps s) = totalPages m"
  by (simp add: addHistoryEntry_def Let_def)

lemma addHistoryEntry_importedPages:
  "importedPages (addHistoryEntry settings now m a ps s) = importedPages m"
  by (simp add: addHistoryEntry_def Let_def)

lemma saveManifest_fields:
  "rsManifest (saveManifest host p m st) = rsManifest st"
  "rsSummary (saveManifest host p m st) = rsSummary st"
  "rsImageFiles (saveManifest host p m st) = rsImageFiles st"
  "rsSaves (saveManifest host p m st) = rsSaves st @ [m]"
  by (simp_all add: saveManifest_def Let_def split: prod.splits sum.splits)

lemma markGeminiProcessed_totalPages:
  "totalPages (markGeminiProcessed n m) = totalPages m"
  by (simp add: markGeminiProcessed_def split: option.splits)

lemma geminiPage_fields:
  "totalPages (rsManifest (geminiPage host bf e st)) = totalPages (rsManifest st)"
  "rsSummary (geminiPage host bf e st) = rsSummary st"
  "rsSaves (geminiPage host bf e st) = rsSaves st"
  by (simp_all add: geminiPage_def Let_def markGeminiProcessed_totalPages
        split: option.splits prod.splits sum.splits)

lemma fold_geminiPage_fields:
  "totalPages (rsManifest (fold (geminiPage host bf) es st)) = totalPages (rsManifest st)"
  "rsSummary (fold (geminiPage host bf) es st) = rsSummary st"
  "rsSaves (fold (geminiPage host bf) es st) = rsSaves st"
  by (induction es arbitrary: st) (simp_all add: geminiPage_fields)

lemma batchLoop_result:
  assumes "batchLoop host settings bookResult hadManifest sel k st = Some st1"
  shows "st1 = fold (processPage host settings bookResult hadManifest) (drop k sel) st"
proof (rule batchLoop.raw_induct[where P = "\<lambda>host settings bookResult hadManifest sel k st st1.
          st1 = fold (processPage host settings bookResult hadManifest) (drop k sel) st",
        OF _ assms])
  fix f host settings bookResult hadManifest sel k st y
  assume IH: "\<And>host settings bookResult hadManifest sel k st y.
      f host settings bookResult hadManifest sel k st = Some y \<Longrightarrow>
      y = fold (processPage host settings bookResult hadManifest) (drop k sel) st"
    and body: "(if k < length sel then
        f host settings bookResult hadManifest sel (k + batchSize settings)
          (fold (processPage host settings bookResult hadManifest)
             (sliceOf sel k (min (k + batchSize settings) (length sel))) st)
      else Some st) = Some y"
  show "y = fold (processPage host settings bookResult hadManifest) (drop k sel) st"
  proof (cases "k < length sel")
    case False
    with body show ?thesis by simp
  next
    case True
    let ?P = "processPage host settings bookResult hadManifest"
    let ?b = "sliceOf sel k (min (k + batchSize settings) (length sel))"
    from body True have "f host settings bookResult hadManifest sel
        (k + batchSize settings) (fold ?P ?b st) = Some y" by simp
    from IH[OF this] have "y = fold ?P (?b @ drop (k + batchSize settings) sel) st" by simp
    then show ?thesis by (simp only: sliceOf_drop[OF True])
  qed
qed

lemma ensureFolder_vault: "snd (ensureFolder fl p v) = v"
  by (simp add: ensureFolder_def hostCall_def split: option.splits)

lemma ensureFolders_vault:
  "snd (bindIO (ensureFolder fl p) (\<lambda>_. ensureFolder fl q) v) = v"
  by (simp add: bindIO_def ensureFolder_def hostCall_def split: option.splits)

text \<open>A run that has a result went through all its batches, page by page.\<close>

lemma run_cases:
  assumes "importSelectedPagesWithProgress host settings bookResult sel existingManifest v
             = Some (res, st)"
  shows "(\<exists>err. res = Inl err \<and> rsSaves st = []
            \<and> rsManifest st = (case existingManifest of Some m \<Rightarrow> m
                                | None \<Rightarrow> initialManifest host bookResult)
            \<and> rsSummary st = emptySummary (length sel) \<and> rsVault st = v)
       \<or> (res, st) = finishRun host settings bookResult sel
             (fold (processPage host settings bookResult (existingManifest \<noteq> None)) sel
                (startState host bookResult sel existingManifest v))"
proof -
  let ?bf = "bookFolderOf settings (bookNameOf bookResult)"
  let ?e = "bindIO (ensureFolder (hostFaults host) ?bf)
                (\<lambda>_. ensureFolder (hostFaults host) (?bf @ ''/'' @ imagesFolder settings)) v"
  let ?st0 = "startState host bookResult sel existingManifest v"
  obtain r v' where e: "?e = (r, v')" by (cases ?e)
  have v': "v' = v" by (metis ensureFolders_vault e snd_conv)
  have st0: "?st0 \<lparr> rsVault := v \<rparr> = ?st0" by (simp add: startState_def Let_def)
  show ?thesis
  proof (cases r)
    case (Inl err)
    with assms e v' have "res = Inl err" and "st = \<lparr> rsVault = v,
                     rsManifest = (case existingManifest of
                                     Some m \<Rightarrow> m
                                   | None \<Rightarrow> initialManifest host bookResult),
                     rsSummary = emptySummary (length sel),
                     rsImageFiles = [], rsSaves = [] \<rparr>"
      by (auto simp: importSelectedPagesWithProgress_def Let_def)
    then show ?thesis by simp
  next
    case (Inr u)
    with assms e v' st0 obtain st1 where
      b: "batchLoop host settings bookResult (existingManifest \<noteq> None) sel 0 ?st0 = Some st1"
      and f: "(res, st) = finishRun host settings bookResult sel st1"
      by (auto simp: importSelectedPagesWithProgress_def Let_def split: option.splits)
    from batchLoop_result[OF b] f show ?thesis by simp
  qed
qed

lemma createBookIndex_cases:
  "createBookIndex host bf name v = (r, v') \<Longrightarrow> (\<exists>err. r = Inl err) \<or> r = Inr ()"
  by (cases r) auto

lemma processWithGemini_fields:
  assumes "processWithGemini host settings bf files st = (r, st')"
  shows "totalPages (rsManifest st') = totalPages (rsManifest st)"
    and "rsSummary st' = rsSummary st"
    and "rsSaves st' = (if geminiEnabled host \<and> geminiAccessible host
                        then rsSaves st @ [rsManifest st'] else rsSaves st)"
  using assms
  by (auto simp: processWithGemini_def Let_def saveManifest_fields fold_geminiPage_fields
        split: if_splits prod.splits sum.splits)

lemma finishRun_fields:
  assumes "finishRun host settings bookResult sel st1 = (Inr summary, st)"
  shows "summary = rsSummary st1 \<and> rsSummary st = rsSummary st1
    \<and> totalPages (rsManifest st) = totalPages (rsManifest st1)
    \<and> rsSaves st =
           rsSaves st1
           @ [addHistoryEntry settings (nowISO host) (rsManifest st1) ActImport sel
                (historyMessage (rsSummary st1))]
           @ (if processWithGeminiSetting settings \<and> rsImageFiles st1 \<noteq> []
                 \<and> geminiEnabled host \<and> geminiAccessible host
              then [rsManifest st] else [])"
proof -
  let ?bf = "bookFolderOf settings (bookNameOf bookResult)"
  let ?m2 = "addHistoryEntry settings (nowISO host) (rsManifest st1) ActImport sel
                (historyMessage (rsSummary st1))"
  let ?st2 = "st1 \<lparr> rsManifest := ?m2 \<rparr>"
  let ?ix = "if createIndex settings
             then createBookIndex host ?bf (bookNameOf bookResult) (rsVault ?st2)
             else (Inr (), rsVault ?st2)"
  obtain r v' where ix: "?ix = (r, v')" by (cases ?ix)
  from assms ix have r: "r = Inr ()"
    by (cases r) (auto simp: finishRun_def Let_def)
  let ?st3 = "saveManifest host (manifestPathOf settings (bookNameOf bookResult)) ?m2
                (?st2 \<lparr> rsVault := v' \<rparr>)"
  have s3: "rsSaves ?st3 = rsSaves st1 @ [?m2]" "rsSummary ?st3 = rsSummary st1"
    "rsImageFiles ?st3 = rsImageFiles st1" "rsManifest ?st3 = ?m2"
    by (simp_all add: saveManifest_fields)
  have unfold: "finishRun host settings bookResult sel st1 =
      (if processWithGeminiSetting settings \<and> rsImageFiles st1 \<noteq> [] then
         (case processWithGemini host settings ?bf (rsImageFiles ?st3) ?st3 of
            (Inl err, st4) \<Rightarrow> (Inl err, st4)
          | (Inr _, st4) \<Rightarrow> (Inr (rsSummary st4), st4))
       else (Inr (rsSummary ?st3), ?st3))"
    using ix r s3(3) by (simp add: finishRun_def Let_def)
  show ?thesis
  proof (cases "processWithGeminiSetting settings \<and> rsImageFiles st1 \<noteq> []")
    case False
    with assms unfold have "st = ?st3" "summary = rsSummary ?st3" by auto
    with s3 False show ?thesis by (simp add: addHistoryEntry_totalPages)
  next
    case True
    obtain g st4 where g: "processWithGemini host settings ?bf (rsImageFiles ?st3) ?st3 = (g, st4)"
      by (cases "processWithGemini host settings ?bf (rsImageFiles ?st3) ?st3")
    from assms unfold True g have eq: "st = st4" "summary = rsSummary st4"
      by (auto split: sum.splits)
    note pf = processWithGemini_fields[OF g]
    have t: "totalPages (rsManifest st) = totalPages (rsManifest st1)"
      using pf(1) eq(1) s3(4) by (simp add: addHistoryEntry_totalPages)
    have su: "rsSummary st = rsSummary st1" using pf(2) eq(1) s3(2) by simp
    have sv: "rsSaves st = (if geminiEnabled host \<and> geminiAccessible host
                        then (rsSaves st1 @ [?m2]) @ [rsManifest st] else rsSaves st1 @ [?m2])"
      using pf(3) eq(1) s3(1) by simp
    have sm: "summary = rsSummary st1" using eq su by simp
    from t su sv sm True show ?thesis by (simp split: if_splits)
  qed
qed

lemma startState_fields:
  "rsSaves (startState host bookResult sel em v) = []"
  "rsVault (startState host bookResult sel em v) = v"
  "rsSummary (startState host bookResult sel em v) = emptySummary (length sel)"
  "rsImageFiles (startState host bookResult sel em v) = []"
  "totalPages (rsManifest (startState host bookResult sel em v))
     = max (case em of Some m \<Rightarrow> totalPages m | None \<Rightarrow> 0) (length (pages bookResult))"
  "importedPages (rsManifest (startState host bookResult sel em v))
     = (case em of Some m \<Rightarrow> importedPages m | None \<Rightarrow> [])"
  by (simp_all add: startState_def Let_def initialManifest_def split: option.splits)

lemma run_eval:
  assumes "0 < batchSize settings"
  shows "importSelectedPagesWithProgress host settings bookResult sel existingManifest v =
     (case bindIO (ensureFolder (hostFaults host) (bookFolderOf settings (bookNameOf bookResult)))
                (\<lambda>_. ensureFolder (hostFaults host)
                        (bookFolderOf settings (bookNameOf bookResult) @ ''/''
                           @ imagesFolder settings)) v of
           (Inl err, v') \<Rightarrow>
             Some (Inl err,
                   \<lparr> rsVault = v',
                     rsManifest = (case existingManifest of
                                     Some m \<Rightarrow> m
                                   | None \<Rightarrow> initialManifest host bookResult),
                     rsSummary = emptySummary (length sel),
                     rsImageFiles = [], rsSaves = [] \<rparr>)
         | (Inr _, v') \<Rightarrow>
             Some (finishRun host settings bookResult sel
                     (fold (processPage host settings bookResult (existingManifest \<noteq> None)) sel
                        ((startState host bookResult sel existingManifest v)
                           \<lparr> rsVault := v' \<rparr>))))"
  by (simp add: importSelectedPagesWithProgress_def Let_def batchLoop_fold[OF assms]
        split: prod.splits sum.splits)

lemma createBookIndex_ok:
  assumes "\<forall>w. hostFaults host w (OpModify (bf @ ''/Index.md'')) = None
             \<and> hostFaults host w (OpCreate (bf @ ''/Index.md'')) = None"
  shows "fst (createBookIndex host bf name v) = Inr ()"
  using assms
  by (simp add: createBookIndex_def Let_def vaultModify_def vaultCreate_def hostCall_def)

lemma processWithGemini_ok:
  assumes "createIndex settings \<longrightarrow>
             (\<forall>w. hostFaults host w (OpModify (bf @ ''/Index.md'')) = None
                \<and> hostFaults host w (OpCreate (bf @ ''/Index.md'')) = None)"
  shows "fst (processWithGemini host settings bf files st) = Inr ()"
proof (cases "createIndex settings")
  case False
  then show ?thesis by (simp add: processWithGemini_def Let_def)
next
  case True
  with assms have ok: "\<And>name w. fst (createBookIndex host bf name w) = Inr ()"
    using createBookIndex_ok by blast
  let ?st1 = "fold (geminiPage host bf) files st"
  let ?st2 = "saveManifest host (bf @ ''/.import-manifest.json'') (rsManifest ?st1) ?st1"
  obtain r v' where c: "createBookIndex host bf (bookName (rsManifest ?st2)) (rsVault ?st2) = (r, v')"
    by (cases "createBookIndex host bf (bookName (rsManifest ?st2)) (rsVault ?st2)")
  with ok[of "bookName (rsManifest ?st2)" "rsVault ?st2"] have r: "r = Inr ()" by simp
  show ?thesis
    using True c r by (simp add: processWithGemini_def Let_def)
qed

lemma finishRun_ok:
  assumes "createIndex settings \<longrightarrow>
             (\<forall>w. hostFaults host w
                     (OpModify (bookFolderOf settings (bookNameOf bookResult) @ ''/Index.md'')) = None
                \<and> hostFaults host w
                     (OpCreate (bookFolderOf settings (bookNameOf bookResult) @ ''/Index.md'')) = None)"
  shows "\<exists>st. finishRun host settings bookResult sel st1 = (Inr (rsSummary st1), st)"
proof -
  let ?bf = "bookFolderOf settings (bookNameOf bookResult)"
  have ix: "\<And>name w. createIndex settings \<Longrightarrow> fst (createBookIndex host ?bf name w) = Inr ()"
    using assms createBookIndex_ok by blast
  have g: "\<And>files st. fst (processWithGemini host settings ?bf files st) = Inr ()"
    using assms by (rule processWithGemini_ok)
  obtain r st where fr: "finishRun host settings bookResult sel st1 = (r, st)"
    by (cases "finishRun host settings bookResult sel st1")
  have "r \<noteq> Inl err" for err
  proof
    assume "r = Inl err"
    with fr show False
      using ix g
      by (auto simp: finishRun_def Let_def split: prod.splits sum.splits if_splits)
         (metis fst_conv sum.distinct(1))+
  qed
  then obtain summary where r: "r = Inr summary" by (cases r) auto
  from finishRun_fields[OF fr[unfolded r]] have "summary = rsSummary st1" by simp
  with fr r show ?thesis by blast
qed

lemma run_returns_summary:
  assumes "0 < batchSize settings"
    and "hostFaults host v (OpEnsureFolder (bookFolderOf settings (bookNameOf bookResult))) = None"
    and "hostFaults host v (OpEnsureFolder (bookFolderOf settings (bookNameOf bookResult)
                                             @ ''/'' @ imagesFolder settings)) = None"
    and "createIndex settings \<longrightarrow>
             (\<forall>w. hostFaults host w
                     (OpModify (bookFolderOf settings (bookNameOf bookResult) @ ''/Index.md'')) = None
                \<and> hostFaults host w
                     (OpCreate (bookFolderOf settings (bookNameOf bookResult) @ ''/Index.md'')) = None)"
  shows "\<exists>st. importSelectedPagesWithProgress host settings bookResult sel existingManifest v
           = Some (Inr (rsSummary
                          (fold (processPage host settings bookResult (existingManifest \<noteq> None)) sel
                             (startState host bookResult sel existingManifest v))), st)"
proof -
  let ?bf = "bookFolderOf settings (bookNameOf bookResult)"
  have e: "bindIO (ensureFolder (hostFaults host) ?bf)
                (\<lambda>_. ensureFolder (hostFaults host) (?bf @ ''/'' @ imagesFolder settings)) v
           = (Inr (), v)"
    using assms(2,3) by (simp add: bindIO_def ensureFolder_def hostCall_def)
  have st0: "(startState host bookResult sel existingManifest v) \<lparr> rsVault := v \<rparr>
             = startState host bookResult sel existingManifest v"
    by (simp add: startState_def Let_def)
  let ?st1 = "fold (processPage host settings bookResult (existingManifest \<noteq> None)) sel
                (startState host bookResult sel existingManifest v)"
  have "importSelectedPagesWithProgress host settings bookResult sel existingManifest v
          = Some (finishRun host settings bookResult sel ?st1)"
    unfolding run_eval[OF assms(1)] e by (simp add: st0)
  moreover from finishRun_ok[OF assms(4)] obtain st where
    "finishRun host settings bookResult sel ?st1 = (Inr (rsSummary ?st1), st)" by blast
  ultimately show ?thesis by simp
qed

lemma noFaults_none [simp]: "noFaults w op = None"
  by (simp add: noFaults_def)

lemma exampleHost_faults [simp]: "hostFaults exampleHost = noFaults"
  by (simp add: exampleHost_def)

subsection \<open>What a page callback may touch\<close>

lemma objectGet_objectSet:
  "objectGet (objectSet k x obj) j = (if j = k then Some x else objectGet obj j)"
  by (simp add: objectGet_def objectSet_def update_conv')

lemma processPage_absent:
  "find (\<lambda>p. pageNum p = n) (pages bookResult) = None \<Longrightarrow>
   processPage host settings bookResult hadManifest n st = st"
  by (simp add: processPage_def)

lemma imageStep_files:
  "imageStep host settings bookResult page isNew isModified existing v = ((text, files), v') \<Longrightarrow>
   snd ` set files \<subseteq> {pageNum page}"
  by (auto simp: imageStep_def split: if_splits prod.splits sum.splits)

lemma pageBody_files:
  "pageBody host settings bookResult totalCount page isNew isModified existing v = (r, files, v') \<Longrightarrow>
   snd ` set files \<subseteq> {pageNum page}"
  unfolding pageBody_def
  by (auto split: sum.splits prod.splits dest!: imageStep_files)

lemma pageTry_files:
  "pageTry host settings bookResult hadManifest page st = (r, files, v') \<Longrightarrow>
   snd ` set files \<subseteq> {pageNum page}"
  unfolding pageTry_def Let_def by (rule pageBody_files)

text \<open>One callback on a page of the book that throws, and one that does not.\<close>

lemma processPage_throws:
  fixes bookResult :: "'s BookResult" and page :: "'s PageData"
  assumes "find (\<lambda>p. pageNum p = n) (pages bookResult) = Some page"
    and "pageTry host settings bookResult hadManifest page st = (Inl err, files, v')"
  shows "errors (rsSummary (processPage host settings bookResult hadManifest n st))
           = errors (rsSummary st) @ [(n, err)]"
    and "rsManifest (processPage host settings bookResult hadManifest n st) = rsManifest st"
    and "rsImageFiles (processPage host settings bookResult hadManifest n st)
           = rsImageFiles st @ files"
    and "rsVault (processPage host settings bookResult hadManifest n st) = v'"
  using assms by (simp_all add: processPage_def Let_def)

lemma processPage_returns:
  fixes bookResult :: "'s BookResult" and page :: "'s PageData"
  assumes "find (\<lambda>p. pageNum p = n) (pages bookResult) = Some page"
    and "pageTry host settings bookResult hadManifest page st = (Inr u, files, v')"
  shows "errors (rsSummary (processPage host settings bookResult hadManifest n st))
           = errors (rsSummary st)"
    and "importedPages (rsManifest (processPage host settings bookResult hadManifest n st))
           = objectSet n (updatedEntry host settings page (rsManifest st))
               (importedPages (rsManifest st))"
    and "rsImageFiles (processPage host settings bookResult hadManifest n st)
           = rsImageFiles st @ files"
    and "rsVault (processPage host settings bookResult hadManifest n st) = v'"
  using assms by (simp_all add: processPage_def Let_def)

lemma processPage_lists:
  fixes bookResult :: "'s BookResult" and page :: "'s PageData"
  assumes "find (\<lambda>p. pageNum p = n) (pages bookResult) = Some page"
  shows "\<exists>a b c. newPages (rsSummary (processPage host settings bookResult hadManifest n st))
                  = newPages (rsSummary st) @ a
           \<and> modifiedPages (rsSummary (processPage host settings bookResult hadManifest n st))
                  = modifiedPages (rsSummary st) @ b
           \<and> unchangedPages (rsSummary (processPage host settings bookResult hadManifest n st))
                  = unchangedPages (rsSummary st) @ c
           \<and> a @ b @ c = [n]
           \<and> deletedPages (rsSummary (processPage host settings bookResult hadManifest n st))
                  = deletedPages (rsSummary st)"
proof -
  obtain r files v' where t: "pageTry host settings bookResult hadManifest page st = (r, files, v')"
    by (cases "pageTry host settings bookResult hadManifest page st")
  let ?e = "existingEntry hadManifest st n"
  consider (n) "?e = None"
    | (m) "?e \<noteq> None" "map_option imageHash ?e \<noteq> Some (imageHashNew (pageImage page))"
    | (u) "?e \<noteq> None" "\<not> map_option imageHash ?e \<noteq> Some (imageHashNew (pageImage page))"
    by blast
  then show ?thesis
  proof cases
    case n
    show ?thesis
      apply (rule exI[of _ "[n]"], rule exI[of _ "[]"], rule exI[of _ "[]"])
      using assms t n by (cases r) (simp_all add: processPage_def Let_def)
  next
    case m
    show ?thesis
      apply (rule exI[of _ "[]"], rule exI[of _ "[n]"], rule exI[of _ "[]"])
      using assms t m by (cases r) (simp_all add: processPage_def Let_def)
  next
    case u
    show ?thesis
      apply (rule exI[of _ "[]"], rule exI[of _ "[]"], rule exI[of _ "[n]"])
      using assms t u by (cases r) (simp_all add: processPage_def Let_def)
  qed
qed

text \<open>What any callback may touch: only its own page number, and only when the book has it.\<close>

lemma processPage_touch:
  fixes bookResult :: "'s BookResult"
  shows "set (newPages (rsSummary (processPage host settings bookResult hadManifest n st)))
           \<subseteq> set (newPages (rsSummary st))
               \<union> {q. q = n \<and> find (\<lambda>p. pageNum p = q) (pages bookResult) \<noteq> None}
       \<and> set (modifiedPages (rsSummary (processPage host settings bookResult hadManifest n st)))
           \<subseteq> set (modifiedPages (rsSummary st))
               \<union> {q. q = n \<and> find (\<lambda>p. pageNum p = q) (pages bookResult) \<noteq> None}
       \<and> set (unchangedPages (rsSummary (processPage host settings bookResult hadManifest n st)))
           \<subseteq> set (unchangedPages (rsSummary st))
               \<union> {q. q = n \<and> find (\<lambda>p. pageNum p = q) (pages bookResult) \<noteq> None}
       \<and> deletedPages (rsSummary (processPage host settings bookResult hadManifest n st))
           = deletedPages (rsSummary st)
       \<and> fst ` set (errors (rsSummary (processPage host settings bookResult hadManifest n st)))
           \<subseteq> fst ` set (errors (rsSummary st))
               \<union> {q. q = n \<and> find (\<lambda>p. pageNum p = q) (pages bookResult) \<noteq> None}
       \<and> set (errors (rsSummary st))
           \<subseteq> set (errors (rsSummary (processPage host settings bookResult hadManifest n st)))
       \<and> snd ` set (rsImageFiles (processPage host settings bookResult hadManifest n st))
           \<subseteq> snd ` set (rsImageFiles st)
               \<union> {q. q = n \<and> find (\<lambda>p. pageNum p = q) (pages bookResult) \<noteq> None}
       \<and> (\<forall>k. k \<noteq> n \<longrightarrow>
              objectGet (importedPages (rsManifest (processPage host settings bookResult hadManifest n st))) k
                = objectGet (importedPages (rsManifest st)) k)"
proof (cases "find (\<lambda>p. pageNum p = n) (pages bookResult)")
  case None
  then show ?thesis by (simp add: processPage_absent)
next
  case (Some page)
  from find_Some_set[OF Some] have pn: "pageNum page = n" by simp
  obtain r files v' where t: "pageTry host settings bookResult hadManifest page st = (r, files, v')"
    by (cases "pageTry host settings bookResult hadManifest page st")
  from pageTry_files[OF t] pn have fs: "snd ` set files \<subseteq> {n}" by simp
  from processPage_lists[OF Some, of host settings hadManifest st] obtain a b c where l:
    "newPages (rsSummary (processPage host settings bookResult hadManifest n st))
                  = newPages (rsSummary st) @ a"
    "modifiedPages (rsSummary (processPage host settings bookResult hadManifest n st))
                  = modifiedPages (rsSummary st) @ b"
    "unchangedPages (rsSummary (processPage host settings bookResult hadManifest n st))
                  = unchangedPages (rsSummary st) @ c"
    "a @ b @ c = [n]"
    "deletedPages (rsSummary (processPage host settings bookResult hadManifest n st))
                  = deletedPages (rsSummary st)"
    by blast
  from l(4) have abc: "set a \<subseteq> {n}" "set b \<subseteq> {n}" "set c \<subseteq> {n}"
    by (metis Un_upper1 Un_upper2 empty_set list.simps(15) set_append subset_trans)+
  have el: "fst ` set (errors (rsSummary (processPage host settings bookResult hadManifest n st)))
           \<subseteq> fst ` set (errors (rsSummary st)) \<union> {n}
       \<and> set (errors (rsSummary st))
           \<subseteq> set (errors (rsSummary (processPage host settings bookResult hadManifest n st)))
       \<and> rsImageFiles (processPage host settings bookResult hadManifest n st) = rsImageFiles st @ files
       \<and> (\<forall>k. k \<noteq> n \<longrightarrow>
              objectGet (importedPages (rsManifest (processPage host settings bookResult hadManifest n st))) k
                = objectGet (importedPages (rsManifest st)) k)"
  proof (cases r)
    case (Inl err)
    from processPage_throws[OF Some t[unfolded Inl]] show ?thesis by auto
  next
    case (Inr u)
    from processPage_returns[OF Some t[unfolded Inr]] show ?thesis
      by (auto simp: objectGet_objectSet)
  qed
  have found: "{q. q = n \<and> find (\<lambda>p. pageNum p = q) (pages bookResult) \<noteq> None} = {n}"
    using Some by auto
  show ?thesis unfolding found using l abc el fs by auto
qed

lemmas processPage_touch_new = processPage_touch[THEN conjunct1]
lemmas processPage_touch_modified = processPage_touch[THEN conjunct2, THEN conjunct1]
lemmas processPage_touch_unchanged = processPage_touch[THEN conjunct2, THEN conjunct2, THEN conjunct1]
lemmas processPage_touch_deleted = processPage_touch[THEN conjunct2, THEN conjunct2, THEN conjunct2, THEN conjunct1]
lemmas processPage_touch_errorPages = processPage_touch[THEN conjunct2, THEN conjunct2, THEN conjunct2, THEN conjunct2, THEN conjunct1]
lemmas processPage_touch_errors = processPage_touch[THEN conjunct2, THEN conjunct2, THEN conjunct2, THEN conjunct2, THEN conjunct2, THEN conjunct1]
lemmas processPage_touch_files = processPage_touch[THEN conjunct2, THEN conjunct2, THEN conjunct2, THEN conjunct2, THEN conjunct2, THEN conjunct2, THEN conjunct1]
lemmas processPage_touch_entry = processPage_touch[THEN conjunct2, THEN conjunct2, THEN conjunct2, THEN conjunct2, THEN conjunct2, THEN conjunct2, THEN conjunct2, rule_format]

lemma fold_processPage_newPages:
  fixes bookResult :: "'s BookResult"
  shows "set (newPages (rsSummary (fold (processPage host settings bookResult hadManifest) ns st)))
           \<subseteq> set (newPages (rsSummary st))
               \<union> {q \<in> set ns. find (\<lambda>p. pageNum p = q) (pages bookResult) \<noteq> None}"
proof (induction ns arbitrary: st)
  case Nil
  then show ?case by simp
next
  case (Cons n ns)
  have step: "set (newPages (rsSummary (processPage host settings bookResult hadManifest n st)))
           \<subseteq> set (newPages (rsSummary st))
               \<union> {q. q = n \<and> find (\<lambda>p. pageNum p = q) (pages bookResult) \<noteq> None}"
    by (rule processPage_touch_new)
  note ih = Cons.IH[of "processPage host settings bookResult hadManifest n st"]
  have u: "set (newPages (rsSummary st)) \<union> {q. q = n \<and> find (\<lambda>p. pageNum p = q) (pages bookResult) \<noteq> None}
          \<union> {q \<in> set ns. find (\<lambda>p. pageNum p = q) (pages bookResult) \<noteq> None}
        \<subseteq> set (newPages (rsSummary st)) \<union> {q \<in> set (n # ns). find (\<lambda>p. pageNum p = q) (pages bookResult) \<noteq> None}"
    by auto
  have f: "fold (processPage host settings bookResult hadManifest) (n # ns) st
      = fold (processPage host settings bookResult hadManifest) ns (processPage host settings bookResult hadManifest n st)"
    by simp
  from ih step have "set (newPages (rsSummary (fold (processPage host settings bookResult hadManifest) ns (processPage host settings bookResult hadManifest n st))))
     \<subseteq> set (newPages (rsSummary st)) \<union> {q. q = n \<and> find (\<lambda>p. pageNum p = q) (pages bookResult) \<noteq> None}
          \<union> {q \<in> set ns. find (\<lambda>p. pageNum p = q) (pages bookResult) \<noteq> None}"
    by (rule order_trans[OF _ Un_mono[OF _ order_refl]])
  then show ?case unfolding f using u by (rule order_trans)
qed

lemma fold_processPage_modifiedPages:
  fixes bookResult :: "'s BookResult"
  shows "set (modifiedPages (rsSummary (fold (processPage host settings bookResult hadManifest) ns st)))
           \<subseteq> set (modifiedPages (rsSummary st))
               \<union> {q \<in> set ns. find (\<lambda>p. pageNum p = q) (pages bookResult) \<noteq> None}"
proof (induction ns arbitrary: st)
  case Nil
  then show ?case by simp
next
  case (Cons n ns)
  have step: "set (modifiedPages (rsSummary (processPage host settings bookResult hadManifest n st)))
           \<subseteq> set (modifiedPages (rsSummary st))
               \<union> {q. q = n \<and> find (\<lambda>p. pageNum p = q) (pages bookResult) \<noteq> None}"
    by (rule processPage_touch_modified)
  note ih = Cons.IH[of "processPage host settings bookResult hadManifest n st"]
  have u: "set (modifiedPages (rsSummary st)) \<union> {q. q = n \<and> find (\<lambda>p. pageNum p = q) (pages bookResult) \<noteq> None}
          \<union> {q \<in> set ns. find (\<lambda>p. pageNum p = q) (pages bookResult) \<noteq> None}
        \<subseteq> set (modifiedPages (rsSummary st)) \<union> {q \<in> set (n # ns). find (\<lambda>p. pageNum p = q) (pages bookResult) \<noteq> None}"
    by auto
  have f: "fold (processPage host settings bookResult hadManifest) (n # ns) st
      = fold (processPage host settings bookResult hadManifest) ns (processPage host settings bookResult hadManifest n st)"
    by simp
  from ih step have "set (modifiedPages (rsSummary (fold (processPage host settings bookResult hadManifest) ns (processPage host settings bookResult hadManifest n st))))
     \<subseteq> set (modifiedPages (rsSummary st)) \<union> {q. q = n \<and> find (\<lambda>p. pageNum p = q) (pages bookResult) \<noteq> None}
          \<union> {q \<in> set ns. find (\<lambda>p. pageNum p = q) (pages bookResult) \<noteq> None}"
    by (rule order_trans[OF _ Un_mono[OF _ order_refl]])
  then show ?case unfolding f using u by (rule order_trans)
qed

lemma fold_processPage_unchangedPages:
  fixes bookResult :: "'s BookResult"
  shows "set (unchangedPages (rsSummary (fold (processPage host settings bookResult hadManifest) ns st)))
           \<subseteq> set (unchangedPages (rsSummary st))
               \<union> {q \<in> set ns. find (\<lambda>p. pageNum p = q) (pages bookResult) \<noteq> None}"
proof (induction ns arbitrary: st)
  case Nil
  then show ?case by simp
next
  case (Cons n ns)
  have step: "set (unchangedPages (rsSummary (processPage host settings bookResult hadManifest n st)))
           \<subseteq> set (unchangedPages (rsSummary st))
               \<union> {q. q = n \<and> find (\<lambda>p. pageNum p = q) (pages bookResult) \<noteq> None}"
    by (rule processPage_touch_unchanged)
  note ih = Cons.IH[of "processPage host settings bookResult hadManifest n st"]
  have u: "set (unchangedPages (rsSummary st)) \<union> {q. q = n \<and> find (\<lambda>p. pageNum p = q) (pages bookResult) \<noteq> None}
          \<union> {q \<in> set ns. find (\<lambda>p. pageNum p = q) (pages bookResult) \<noteq> None}
        \<subseteq> set (unchangedPages (rsSummary st)) \<union> {q \<in> set (n # ns). find (\<lambda>p. pageNum p = q) (pages bookResult) \<noteq> None}"
    by auto
  have f: "fold (processPage host settings bookResult hadManifest) (n # ns) st
      = fold (processPage host settings bookResult hadManifest) ns (processPage host settings bookResult hadManifest n st)"
    by simp
  from ih step have "set (unchangedPages (rsSummary (fold (processPage host settings bookResult hadManifest) ns (processPage host settings bookResult hadManifest n st))))
     \<subseteq> set (unchangedPages (rsSummary st)) \<union> {q. q = n \<and> find (\<lambda>p. pageNum p = q) (pages bookResult) \<noteq> None}
          \<union> {q \<in> set ns. find (\<lambda>p. pageNum p = q) (pages bookResult) \<noteq> None}"
    by (rule order_trans[OF _ Un_mono[OF _ order_refl]])
  then show ?case unfolding f using u by (rule order_trans)
qed

lemma fold_processPage_errorPages:
  fixes bookResult :: "'s BookResult"
  shows "fst ` set (errors (rsSummary (fold (processPage host settings bookResult hadManifest) ns st)))
           \<subseteq> fst ` set (errors (rsSummary st))
               \<union> {q \<in> set ns. find (\<lambda>p. pageNum p = q) (pages bookResult) \<noteq> None}"
proof (induction ns arbitrary: st)
  case Nil
  then show ?case by simp
next
  case (Cons n ns)
  have step: "fst ` set (errors (rsSummary (processPage host settings bookResult hadManifest n st)))
           \<subseteq> fst ` set (errors (rsSummary st))
               \<union> {q. q = n \<and> find (\<lambda>p. pageNum p = q) (pages bookResult) \<noteq> None}"
    by (rule processPage_touch_errorPages)
  note ih = Cons.IH[of "processPage host settings bookResult hadManifest n st"]
  have u: "fst ` set (errors (rsSummary st)) \<union> {q. q = n \<and> find (\<lambda>p. pageNum p = q) (pages bookResult) \<noteq> None}
          \<union> {q \<in> set ns. find (\<lambda>p. pageNum p = q) (pages bookResult) \<noteq> None}
        \<subseteq> fst ` set (errors (rsSummary st)) \<union> {q \<in> set (n # ns). find (\<lambda>p. pageNum p = q) (pages bookResult) \<noteq> None}"
    by auto
  have f: "fold (processPage host settings bookResult hadManifest) (n # ns) st
      = fold (processPage host settings bookResult hadManifest) ns (processPage host settings bookResult hadManifest n st)"
    by simp
  from ih step have "fst ` set (errors (rsSummary (fold (processPage host settings bookResult hadManifest) ns (processPage host settings bookResult hadManifest n st))))
     \<subseteq> fst ` set (errors (rsSummary st)) \<union> {q. q = n \<and> find (\<lambda>p. pageNum p = q) (pages bookResult) \<noteq> None}
          \<union> {q \<in> set ns. find (\<lambda>p. pageNum p = q) (pages bookResult) \<noteq> None}"
    by (rule order_trans[OF _ Un_mono[OF _ order_refl]])
  then show ?case unfolding f using u by (rule order_trans)
qed

lemma fold_processPage_imageFiles:
  fixes bookResult :: "'s BookResult"
  shows "snd ` set (rsImageFiles (fold (processPage host settings bookResult hadManifest) ns st))
           \<subseteq> snd ` set (rsImageFiles st)
               \<union> {q \<in> set ns. find (\<lambda>p. pageNum p = q) (pages bookResult) \<noteq> None}"
proof (induction ns arbitrary: st)
  case Nil
  then show ?case by simp
next
  case (Cons n ns)
  have step: "snd ` set (rsImageFiles (processPage host settings bookResult hadManifest n st))
           \<subseteq> snd ` set (rsImageFiles st)
               \<union> {q. q = n \<and> find (\<lambda>p. pageNum p = q) (pages bookResult) \<noteq> None}"
    by (rule processPage_touch_files)
  note ih = Cons.IH[of "processPage host settings bookResult hadManifest n st"]
  have u: "snd ` set (rsImageFiles st) \<union> {q. q = n \<and> find (\<lambda>p. pageNum p = q) (pages bookResult) \<noteq> None}
          \<union> {q \<in> set ns. find (\<lambda>p. pageNum p = q) (pages bookResult) \<noteq> None}
        \<subseteq> snd ` set (rsImageFiles st) \<union> {q \<in> set (n # ns). find (\<lambda>p. pageNum p = q) (pages bookResult) \<noteq> None}"
    by auto
  have f: "fold (processPage host settings bookResult hadManifest) (n # ns) st
      = fold (processPage host settings bookResult hadManifest) ns (processPage host settings bookResult hadManifest n st)"
    by simp
  from ih step have "snd ` set (rsImageFiles (fold (processPage host settings bookResult hadManifest) ns (processPage host settings bookResult hadManifest n st)))
     \<subseteq> snd ` set (rsImageFiles st) \<union> {q. q = n \<and> find (\<lambda>p. pageNum p = q) (pages bookResult) \<noteq> None}
          \<union> {q \<in> set ns. find (\<lambda>p. pageNum p = q) (pages bookResult) \<noteq> None}"
    by (rule order_trans[OF _ Un_mono[OF _ order_refl]])
  then show ?case unfolding f using u by (rule order_trans)
qed

lemma fold_processPage_deletedPages:
  fixes bookResult :: "'s BookResult"
  shows "deletedPages (rsSummary (fold (processPage host settings bookResult hadManifest) ns st))
           = deletedPages (rsSummary st)"
  by (induction ns arbitrary: st) (simp_all add: processPage_touch_deleted)

lemma fold_processPage_errors_mono:
  fixes bookResult :: "'s BookResult"
  shows "set (errors (rsSummary st))
           \<subseteq> set (errors (rsSummary (fold (processPage host settings bookResult hadManifest) ns st)))"
proof (induction ns arbitrary: st)
  case Nil
  then show ?case by simp
next
  case (Cons n ns)
  have step: "set (errors (rsSummary st))
           \<subseteq> set (errors (rsSummary (processPage host settings bookResult hadManifest n st)))"
    by (rule processPage_touch_errors)
  from step Cons.IH[of "processPage host settings bookResult hadManifest n st"] show ?case
    unfolding fold_simps by (rule order_trans)
qed

lemma fold_processPage_entry_other:
  fixes bookResult :: "'s BookResult"
  assumes "k \<notin> set ns"
  shows "objectGet (importedPages (rsManifest (fold (processPage host settings bookResult hadManifest) ns st))) k
                = objectGet (importedPages (rsManifest st)) k"
  using assms
proof (induction ns arbitrary: st)
  case Nil
  then show ?case by simp
next
  case (Cons n ns)
  then have kn: "k \<noteq> n" and kns: "k \<notin> set ns" by auto
  have step: "objectGet (importedPages (rsManifest (processPage host settings bookResult hadManifest n st))) k
                = objectGet (importedPages (rsManifest st)) k"
    using kn by (rule processPage_touch_entry)
  with Cons.IH[OF kns, of "processPage host settings bookResult hadManifest n st"] show ?case
    unfolding fold_simps by simp
qed

lemma fold_processPage_skip:
  fixes bookResult :: "'s BookResult"
  assumes "find (\<lambda>pg. pageNum pg = p) (pages bookResult) = None"
  shows "fold (processPage host settings bookResult hadManifest) ns st
           = fold (processPage host settings bookResult hadManifest) (filter (\<lambda>q. q \<noteq> p) ns) st"
  by (induction ns arbitrary: st) (simp_all add: processPage_absent[OF assms])

text \<open>
  The Gemini pass touches the manifest only at the pages of the images it was given, and
  there only the flag \<open>geminiProcessed\<close>.
\<close>

lemma markGeminiProcessed_entry:
  "objectGet (importedPages (markGeminiProcessed n m)) k
     = (if k = n then map_option (\<lambda>i. i \<lparr> geminiProcessed := True \<rparr>) (objectGet (importedPages m) k)
        else objectGet (importedPages m) k)"
  by (simp add: markGeminiProcessed_def objectGet_objectSet split: option.splits)

lemma geminiPage_entry:
  "objectGet (importedPages (rsManifest (geminiPage host bf e st))) k
     = objectGet (importedPages (rsManifest st)) k
   \<or> (k = snd e
       \<and> objectGet (importedPages (rsManifest (geminiPage host bf e st))) k
           = map_option (\<lambda>i. i \<lparr> geminiProcessed := True \<rparr>)
               (objectGet (importedPages (rsManifest st)) k))"
  by (simp add: geminiPage_def Let_def markGeminiProcessed_entry
        split: option.splits prod.splits sum.splits)

lemma geminiPage_imageFiles:
  "rsImageFiles (geminiPage host bf e st) = rsImageFiles st"
  by (simp add: geminiPage_def Let_def split: option.splits prod.splits sum.splits)

lemma fold_geminiPage_imageFiles:
  "rsImageFiles (fold (geminiPage host bf) es st) = rsImageFiles st"
  by (induction es arbitrary: st) (simp_all add: geminiPage_imageFiles)

lemma fold_geminiPage_entry:
  "objectGet (importedPages (rsManifest (fold (geminiPage host bf) es st))) k
     = objectGet (importedPages (rsManifest st)) k
   \<or> (k \<in> snd ` set es
       \<and> objectGet (importedPages (rsManifest (fold (geminiPage host bf) es st))) k
           = map_option (\<lambda>i. i \<lparr> geminiProcessed := True \<rparr>)
               (objectGet (importedPages (rsManifest st)) k))"
proof (induction es arbitrary: st)
  case Nil
  then show ?case by simp
next
  case (Cons e es)
  let ?g = "map_option (\<lambda>i. i \<lparr> geminiProcessed := True \<rparr>)"
  have idem: "?g (?g x) = ?g x" for x :: "PageInfo option" by (cases x) simp_all
  note step = geminiPage_entry[of host bf e st k]
  note ih = Cons.IH[of "geminiPage host bf e st"]
  from step show ?case
  proof
    assume s: "objectGet (importedPages (rsManifest (geminiPage host bf e st))) k
                 = objectGet (importedPages (rsManifest st)) k"
    from ih show ?thesis unfolding fold_simps s by auto
  next
    assume s: "k = snd e
       \<and> objectGet (importedPages (rsManifest (geminiPage host bf e st))) k
           = ?g (objectGet (importedPages (rsManifest st)) k)"
    then have ke: "k \<in> snd ` set (e # es)" by simp
    from ih s have "objectGet (importedPages (rsManifest (fold (geminiPage host bf) es (geminiPage host bf e st)))) k
           = ?g (objectGet (importedPages (rsManifest st)) k)"
      by (auto simp: idem)
    with ke show ?thesis unfolding fold_simps by blast
  qed
qed

lemma processWithGemini_entry:
  assumes "processWithGemini host settings bf files st = (r, st')"
  shows "rsImageFiles st' = rsImageFiles st"
    and "objectGet (importedPages (rsManifest st')) k
           = objectGet (importedPages (rsManifest st)) k
         \<or> (k \<in> snd ` set files
             \<and> objectGet (importedPages (rsManifest st')) k
                 = map_option (\<lambda>i. i \<lparr> geminiProcessed := True \<rparr>)
                     (objectGet (importedPages (rsManifest st)) k))"
proof -
  let ?st1 = "fold (geminiPage host bf) files st"
  from assms have m: "rsManifest st' = rsManifest st \<or> rsManifest st' = rsManifest ?st1"
    and f: "rsImageFiles st' = rsImageFiles st"
    by (auto simp: processWithGemini_def Let_def saveManifest_fields fold_geminiPage_imageFiles
          split: if_splits prod.splits sum.splits)
  from f show "rsImageFiles st' = rsImageFiles st" .
  from m fold_geminiPage_entry[of host bf files st k]
  show "objectGet (importedPages (rsManifest st')) k
           = objectGet (importedPages (rsManifest st)) k
         \<or> (k \<in> snd ` set files
             \<and> objectGet (importedPages (rsManifest st')) k
                 = map_option (\<lambda>i. i \<lparr> geminiProcessed := True \<rparr>)
                     (objectGet (importedPages (rsManifest st)) k))"
    by auto
qed

lemma finishRun_entry:
  assumes "finishRun host settings bookResult sel st1 = (r, st)"
  shows "rsImageFiles st = rsImageFiles st1"
    and "objectGet (importedPages (rsManifest st)) k
           = objectGet (importedPages (rsManifest st1)) k
         \<or> (k \<in> snd ` set (rsImageFiles st1)
             \<and> objectGet (importedPages (rsManifest st)) k
                 = map_option (\<lambda>i. i \<lparr> geminiProcessed := True \<rparr>)
                     (objectGet (importedPages (rsManifest st1)) k))"
proof -
  let ?bf = "bookFolderOf settings (bookNameOf bookResult)"
  let ?m2 = "addHistoryEntry settings (nowISO host) (rsManifest st1) ActImport sel
                (historyMessage (rsSummary st1))"
  let ?st2 = "st1 \<lparr> rsManifest := ?m2 \<rparr>"
  let ?ix = "if createIndex settings
             then createBookIndex host ?bf (bookNameOf bookResult) (rsVault ?st2)
             else (Inr (), rsVault ?st2)"
  obtain ri v' where ix: "?ix = (ri, v')" by (cases ?ix)
  let ?st3 = "saveManifest host (manifestPathOf settings (bookNameOf bookResult)) ?m2
                (?st2 \<lparr> rsVault := v' \<rparr>)"
  have s3: "rsImageFiles ?st3 = rsImageFiles st1"
    "importedPages (rsManifest ?st3) = importedPages (rsManifest st1)"
    by (simp_all add: saveManifest_fields addHistoryEntry_importedPages)
  obtain rg st4 where g: "processWithGemini host settings ?bf (rsImageFiles ?st3) ?st3 = (rg, st4)"
    by (cases "processWithGemini host settings ?bf (rsImageFiles ?st3) ?st3")
  note ge = processWithGemini_entry[OF g, unfolded s3]
  from assms ix g have cases: "st = ?st2 \<lparr> rsVault := v' \<rparr> \<or> st = ?st3 \<or> st = st4"
    by (cases ri; cases rg)
       (auto simp: finishRun_def Let_def split: if_splits)
  have e2: "rsImageFiles (?st2 \<lparr> rsVault := v' \<rparr>) = rsImageFiles st1"
    "importedPages (rsManifest (?st2 \<lparr> rsVault := v' \<rparr>)) = importedPages (rsManifest st1)"
    by (simp_all add: addHistoryEntry_importedPages)
  from cases e2 s3 ge(1) show "rsImageFiles st = rsImageFiles st1" by auto
  from cases e2 s3 ge(2)[of k]
  show "objectGet (importedPages (rsManifest st)) k
           = objectGet (importedPages (rsManifest st1)) k
         \<or> (k \<in> snd ` set (rsImageFiles st1)
             \<and> objectGet (importedPages (rsManifest st)) k
                 = map_option (\<lambda>i. i \<lparr> geminiProcessed := True \<rparr>)
                     (objectGet (importedPages (rsManifest st1)) k))"
    by auto
qed

subsection \<open>The files an unchanged page leaves alone\<close>

text \<open>What the steps of an unchanged page leave alone: every file that exists.\<close>

lemma hostCall_frame:
  assumes "\<And>w. effect w p = w p"
  shows "snd (hostCall fl op effect v) p = v p"
  using assms by (simp add: hostCall_def split: option.splits)

lemma ensureFolder_result:
  "ensureFolder fl q v = (r, v') \<Longrightarrow> v' = v"
  by (metis ensureFolder_vault snd_conv)

lemma audioStep_frame:
  assumes "isTFile v p"
  shows "snd (audioStep host settings bookResult page False False v) p = v p"
proof (cases "audio page")
  case None
  then show ?thesis by (simp add: audioStep_def returnIO_def)
next
  case (Some a)
  let ?ap = "normalizePath host (audioFolderOf settings (bookNameOf bookResult) @ ''/'' @ audioName a)"
  obtain r v' where e: "ensureFolder (hostFaults host) (audioFolderOf settings (bookNameOf bookResult)) v = (r, v')"
    by (cases "ensureFolder (hostFaults host) (audioFolderOf settings (bookNameOf bookResult)) v")
  from ensureFolder_result[OF e] have v': "v' = v" .
  show ?thesis
  proof (cases "isTFile v ?ap")
    case True
    with Some e v' show ?thesis
      by (cases r) (simp_all add: audioStep_def bindIO_def returnIO_def Let_def)
  next
    case False
    with assms have ne: "?ap \<noteq> p" by auto
    have c: "snd (vaultCreateBinary (hostFaults host) ?ap (audioBlob a) v) p = v p"
      unfolding vaultCreateBinary_def using ne by (intro hostCall_frame) simp
    from Some e v' False c show ?thesis
      by (cases r; cases "vaultCreateBinary (hostFaults host) ?ap (audioBlob a) v")
         (auto simp: audioStep_def bindIO_def returnIO_def Let_def split: sum.splits)
  qed
qed

lemma imageStep_untouched:
  assumes "isTFile v (imagePathOf host settings (bookNameOf bookResult) (pageNum page))"
    and "\<not> backgroundChangedOf settings existing"
  shows "snd (imageStep host settings bookResult page False False existing v) = v"
  using assms by (simp add: imageStep_def imageTry_def Let_def returnIO_def)

lemma imageStep_writes_only_if:
  assumes "snd (imageStep host settings bookResult page isNew isModified existing v) \<noteq> v"
  shows "(outputFormat settings = Png \<or> outputFormat settings = Both)
       \<and> (isNew \<or> isModified \<or> backgroundChangedOf settings existing
            \<or> \<not> isTFile v (imagePathOf host settings (bookNameOf bookResult) (pageNum page)))"
proof -
  have fmt: "outputFormat settings = Png \<or> outputFormat settings = Both"
    using assms by (auto simp: imageStep_def)
  have "isNew \<or> isModified \<or> backgroundChangedOf settings existing
            \<or> \<not> isTFile v (imagePathOf host settings (bookNameOf bookResult) (pageNum page))"
  proof (rule ccontr)
    assume "\<not> ?thesis"
    then have "isNew = False" "isModified = False" "\<not> backgroundChangedOf settings existing"
      "isTFile v (imagePathOf host settings (bookNameOf bookResult) (pageNum page))"
      by auto
    with imageStep_untouched[of v host settings bookResult page existing] assms
    show False by simp
  qed
  with fmt show ?thesis by simp
qed

lemma svgStep_frame:
  assumes "isTFile v p"
  shows "snd (svgStep host settings bookResult page False False v) p = v p"
proof (cases "stroke page")
  case None
  then show ?thesis by (simp add: svgStep_def returnIO_def)
next
  case (Some strokes)
  let ?sp = "svgPathOf host settings (bookNameOf bookResult) (pageNum page)"
  show ?thesis
  proof (cases "outputFormat settings = Svg \<or> outputFormat settings = Both")
    case False
    with Some show ?thesis by (simp add: svgStep_def returnIO_def)
  next
    case fmt: True
    show ?thesis
    proof (cases "isTFile v ?sp")
      case True
      with Some fmt show ?thesis
        by (simp add: svgStep_def bindIO_def returnIO_def Let_def)
    next
      case False
      with assms have ne: "?sp \<noteq> p" by auto
      have c: "snd (vaultCreate (hostFaults host) ?sp (strokesToSVG host strokes) v) p = v p"
        unfolding vaultCreate_def using ne by (intro hostCall_frame) simp
      from Some fmt False c show ?thesis
        by (cases "vaultCreate (hostFaults host) ?sp (strokesToSVG host strokes) v")
           (auto simp: svgStep_def bindIO_def returnIO_def Let_def split: sum.splits)
    qed
  qed
qed

lemma savePageFile_frame:
  assumes "pagePath \<noteq> p"
  shows "snd (savePageFile host pagePath c v) p = v p"
proof -
  have "snd (vaultModify (hostFaults host) pagePath c v) p = v p"
    unfolding vaultModify_def using assms by (intro hostCall_frame) simp
  moreover have "snd (vaultCreate (hostFaults host) pagePath c v) p = v p"
    unfolding vaultCreate_def using assms by (intro hostCall_frame) simp
  ultimately show ?thesis by (simp add: savePageFile_def)
qed

lemma pageBody_frame:
  fixes bookResult :: "'s BookResult" and page :: "'s PageData"
  assumes img: "v (imagePathOf host settings (bookNameOf bookResult) (pageNum page)) = Some img"
    and bg: "\<not> backgroundChangedOf settings existing"
    and ne: "pagePathOf settings (bookNameOf bookResult) (pageNum page)
               \<noteq> imagePathOf host settings (bookNameOf bookResult) (pageNum page)"
  shows "snd (snd (pageBody host settings bookResult totalCount page False False existing v))
           (imagePathOf host settings (bookNameOf bookResult) (pageNum page)) = Some img"
proof -
  let ?p = "imagePathOf host settings (bookNameOf bookResult) (pageNum page)"
  show ?thesis
  proof (cases "frontmatterText host settings bookResult totalCount page False (pageNum page)")
    case (Inl err)
    then show ?thesis using img by (simp add: pageBody_def)
  next
    case (Inr frontmatter)
    obtain ra v1 where a: "audioStep host settings bookResult page False False v = (ra, v1)"
      by (cases "audioStep host settings bookResult page False False v")
    have f0: "isTFile v ?p" using img by (simp add: isTFile_def)
    from audioStep_frame[OF f0, of host settings bookResult page] a img
    have v1: "v1 ?p = Some img" by simp
    show ?thesis
    proof (cases ra)
      case (Inl err)
      with Inr a v1 show ?thesis by (simp add: pageBody_def)
    next
      case ra: (Inr audioText)
      obtain imageText files v2 where
        i: "imageStep host settings bookResult page False False existing v1 = ((imageText, files), v2)"
        by (cases "imageStep host settings bookResult page False False existing v1") auto
      have f1: "isTFile v1 ?p" using v1 by (simp add: isTFile_def)
      from imageStep_untouched[OF f1 bg] i have v2: "v2 = v1" by simp
      obtain rs v3 where s: "svgStep host settings bookResult page False False v1 = (rs, v3)"
        by (cases "svgStep host settings bookResult page False False v1")
      from svgStep_frame[OF f1, of host settings bookResult page] s v1
      have v3: "v3 ?p = Some img" by simp
      show ?thesis
      proof (cases rs)
        case (Inl err)
        with Inr a ra i v2 s v3 show ?thesis by (simp add: pageBody_def)
      next
        case rs: (Inr svgText)
        let ?save = "savePageFile host (pagePathOf settings (bookNameOf bookResult) (pageNum page))
                       (frontmatter @ audioText @ imageText @ svgText) v3"
        obtain rp v4 where p: "?save = (rp, v4)" by (cases ?save)
        from savePageFile_frame[OF ne, of host _ v3] p v3 have v4: "v4 ?p = Some img"
          by (metis snd_conv)
        from Inr a ra i v2 s rs p v4 show ?thesis
          by (cases rp) (simp_all add: pageBody_def)
      qed
    qed
  qed
qed

lemma processPage_vault:
  fixes bookResult :: "'s BookResult"
  assumes "find (\<lambda>p. pageNum p = n) (pages bookResult) = Some page"
  shows "rsVault (processPage host settings bookResult hadManifest n st)
           = snd (snd (pageTry host settings bookResult hadManifest page st))"
proof -
  obtain r files v' where t: "pageTry host settings bookResult hadManifest page st = (r, files, v')"
    by (cases "pageTry host settings bookResult hadManifest page st")
  show ?thesis
  proof (cases r)
    case (Inl err)
    from processPage_throws[OF assms t[unfolded Inl]] t show ?thesis by simp
  next
    case (Inr u)
    from processPage_returns[OF assms t[unfolded Inr]] t show ?thesis by simp
  qed
qed

subsection \<open>The outcome of one page within a run\<close>

text \<open>The entry written for a page reads the manifest only at that page.\<close>

lemma updatedEntry_cong:
  assumes "objectGet (importedPages m) (pageNum page) = objectGet (importedPages m') (pageNum page)"
  shows "updatedEntry host settings page m = updatedEntry host settings page m'"
  using assms by (simp add: updatedEntry_def)

lemma finishRun_entry_setting:
  assumes "finishRun host settings bookResult sel st1 = (r, st)"
    and "\<not> processWithGeminiSetting settings"
  shows "importedPages (rsManifest st) = importedPages (rsManifest st1)"
proof -
  let ?bf = "bookFolderOf settings (bookNameOf bookResult)"
  let ?m2 = "addHistoryEntry settings (nowISO host) (rsManifest st1) ActImport sel
                (historyMessage (rsSummary st1))"
  let ?st2 = "st1 \<lparr> rsManifest := ?m2 \<rparr>"
  let ?ix = "if createIndex settings
             then createBookIndex host ?bf (bookNameOf bookResult) (rsVault ?st2)
             else (Inr (), rsVault ?st2)"
  obtain ri v' where ix: "?ix = (ri, v')" by (cases ?ix)
  let ?st3 = "saveManifest host (manifestPathOf settings (bookNameOf bookResult)) ?m2
                (?st2 \<lparr> rsVault := v' \<rparr>)"
  from assms ix have cases: "st = ?st2 \<lparr> rsVault := v' \<rparr> \<or> st = ?st3"
    by (cases ri) (auto simp: finishRun_def Let_def split: if_splits)
  then show ?thesis
    by (auto simp: saveManifest_fields addHistoryEntry_importedPages)
qed

lemma finishRun_entry_cases:
  assumes "finishRun host settings bookResult sel st1 = (r, st)"
  shows "objectGet (importedPages (rsManifest st)) k
           = objectGet (importedPages (rsManifest st1)) k
         \<or> (processWithGeminiSetting settings \<and> k \<in> snd ` set (rsImageFiles st1)
             \<and> objectGet (importedPages (rsManifest st)) k
                 = map_option (\<lambda>i. i \<lparr> geminiProcessed := True \<rparr>)
                     (objectGet (importedPages (rsManifest st1)) k))"
proof (cases "processWithGeminiSetting settings")
  case True
  with finishRun_entry(2)[OF assms, of k] show ?thesis by simp
next
  case False
  from finishRun_entry_setting[OF assms False] show ?thesis by simp
qed

lemma startState_entry:
  "objectGet (importedPages (rsManifest (startState host bookResult sel em v))) k
     = objectGet (importedPages (case em of Some m \<Rightarrow> m | None \<Rightarrow> initialManifest host bookResult)) k"
  by (simp add: startState_fields initialManifest_def split: option.splits)

text \<open>
  The outcome of one selected page within the batches: its own \<open>try\<close> block decides, the
  callbacks of the other pages change neither its error entry nor its manifest entry.
\<close>

lemma fold_processPage_throws:
  fixes bookResult :: "'s BookResult" and page :: "'s PageData"
  assumes found: "find (\<lambda>p. pageNum p = n) (pages bookResult) = Some page"
    and dist: "distinct (before @ n # after)"
    and t: "fst (pageTry host settings bookResult hadManifest page
                   (fold (processPage host settings bookResult hadManifest) before st0)) = Inl err"
  shows "(n, err) \<in> set (errors (rsSummary
            (fold (processPage host settings bookResult hadManifest) (before @ n # after) st0)))"
    and "objectGet (importedPages (rsManifest
            (fold (processPage host settings bookResult hadManifest) (before @ n # after) st0))) n
         = objectGet (importedPages (rsManifest st0)) n"
proof -
  let ?P = "processPage host settings bookResult hadManifest"
  let ?stn = "fold ?P before st0"
  obtain files v' where t': "pageTry host settings bookResult hadManifest page ?stn = (Inl err, files, v')"
    using t by (cases "pageTry host settings bookResult hadManifest page ?stn") auto
  note step = processPage_throws[OF found t']
  have f: "fold ?P (before @ n # after) st0 = fold ?P after (?P n ?stn)" by simp
  from dist have nb: "n \<notin> set before" and na: "n \<notin> set after" by auto
  have "(n, err) \<in> set (errors (rsSummary (?P n ?stn)))" using step by simp
  with fold_processPage_errors_mono[of "?P n ?stn" host settings bookResult hadManifest after]
  show "(n, err) \<in> set (errors (rsSummary (fold ?P (before @ n # after) st0)))"
    unfolding f by blast
  have "objectGet (importedPages (rsManifest (fold ?P after (?P n ?stn)))) n
          = objectGet (importedPages (rsManifest (?P n ?stn))) n"
    using na by (rule fold_processPage_entry_other)
  also have "\<dots> = objectGet (importedPages (rsManifest ?stn)) n" using step by simp
  also have "\<dots> = objectGet (importedPages (rsManifest st0)) n"
    using nb by (rule fold_processPage_entry_other)
  finally show "objectGet (importedPages (rsManifest (fold ?P (before @ n # after) st0))) n
         = objectGet (importedPages (rsManifest st0)) n"
    unfolding f .
qed

lemma fold_processPage_returns:
  fixes bookResult :: "'s BookResult" and page :: "'s PageData"
  assumes found: "find (\<lambda>p. pageNum p = n) (pages bookResult) = Some page"
    and dist: "distinct (before @ n # after)"
    and t: "fst (pageTry host settings bookResult hadManifest page
                   (fold (processPage host settings bookResult hadManifest) before st0)) = Inr u"
    and e0: "errors (rsSummary st0) = []"
  shows "n \<notin> fst ` set (errors (rsSummary
            (fold (processPage host settings bookResult hadManifest) (before @ n # after) st0)))"
    and "objectGet (importedPages (rsManifest
            (fold (processPage host settings bookResult hadManifest) (before @ n # after) st0))) n
         = Some (updatedEntry host settings page (rsManifest st0))"
proof -
  let ?P = "processPage host settings bookResult hadManifest"
  let ?stn = "fold ?P before st0"
  from find_Some_set[OF found] have pn: "pageNum page = n" by simp
  obtain files v' where t': "pageTry host settings bookResult hadManifest page ?stn = (Inr u, files, v')"
    using t by (cases "pageTry host settings bookResult hadManifest page ?stn") auto
  note step = processPage_returns[OF found t']
  have f: "fold ?P (before @ n # after) st0 = fold ?P after (?P n ?stn)" by simp
  from dist have nb: "n \<notin> set before" and na: "n \<notin> set after" by auto
  have eb: "fst ` set (errors (rsSummary ?stn))
              \<subseteq> {q \<in> set before. find (\<lambda>p. pageNum p = q) (pages bookResult) \<noteq> None}"
    using fold_processPage_errorPages[of host settings bookResult hadManifest before st0] e0
    by simp
  have en: "errors (rsSummary (?P n ?stn)) = errors (rsSummary ?stn)" using step by simp
  have ea: "fst ` set (errors (rsSummary (fold ?P after (?P n ?stn))))
              \<subseteq> fst ` set (errors (rsSummary ?stn))
                 \<union> {q \<in> set after. find (\<lambda>p. pageNum p = q) (pages bookResult) \<noteq> None}"
    using fold_processPage_errorPages[of host settings bookResult hadManifest after "?P n ?stn"]
    unfolding en .
  have "n \<notin> fst ` set (errors (rsSummary ?stn))" using eb nb by blast
  moreover have "n \<notin> {q \<in> set after. find (\<lambda>p. pageNum p = q) (pages bookResult) \<noteq> None}"
    using na by simp
  ultimately show "n \<notin> fst ` set (errors (rsSummary (fold ?P (before @ n # after) st0)))"
    unfolding f using ea by blast
  have same: "objectGet (importedPages (rsManifest ?stn)) (pageNum page)
                = objectGet (importedPages (rsManifest st0)) (pageNum page)"
    unfolding pn using nb by (rule fold_processPage_entry_other)
  have "objectGet (importedPages (rsManifest (fold ?P after (?P n ?stn)))) n
          = objectGet (importedPages (rsManifest (?P n ?stn))) n"
    using na by (rule fold_processPage_entry_other)
  also have "\<dots> = Some (updatedEntry host settings page (rsManifest ?stn))"
    using step by (simp add: objectGet_objectSet)
  also have "\<dots> = Some (updatedEntry host settings page (rsManifest st0))"
    using updatedEntry_cong[OF same] by simp
  finally show "objectGet (importedPages (rsManifest (fold ?P (before @ n # after) st0))) n
         = Some (updatedEntry host settings page (rsManifest st0))"
    unfolding f .
qed

section \<open>Sentinel dominance\<close>

text \<open>
  Claim C1. For every page of the decoded book whose comparison baseline (the entry of the
  map of existing pages, read through \<open>existingHashOf\<close>) starts with \<open>recovered-\<close> or
  \<open>RESET-\<close>, \<open>analyzeChanges\<close> lists the page number among the modified pages and not
  among the unchanged ones, records a change of type modified with that baseline as the old
  fingerprint, and records no change of type unchanged for it. Nothing is assumed about the
  page's fresh digest, which may equal the baseline.
\<close>

theorem sentinel_dominance:
  fixes bookResult :: "'s BookResult" and page :: "'s PageData"
  assumes "analyzeChanges fl v settings bookResult (Some manifest) = (changes, summary)"
    and "page \<in> set (pages bookResult)"
    and "mapGet (buildExistingMap fl v (bookFolderOf settings (bookNameOf bookResult))
                  (importedPages manifest)) (pageNum page) = Some existing"
    and "startsWith (existingHashOf existing) ''recovered-''
           \<or> startsWith (existingHashOf existing) ''RESET-''"
  shows "pageNum page \<in> set (modifiedPages summary)
       \<and> pageNum page \<notin> set (unchangedPages summary)
       \<and> (\<exists>c\<in>set changes. changePageNum c = pageNum page \<and> changeType c = Modified
              \<and> oldHash c = Some (existingHashOf existing))
       \<and> (\<forall>c\<in>set changes. changePageNum c = pageNum page \<longrightarrow> changeType c \<noteq> Unchanged)"
proof -
  let ?m = "buildExistingMap fl v (bookFolderOf settings (bookNameOf bookResult)) (importedPages manifest)"
  let ?n = "pageNum page"
  obtain rem ch s where f: "fold checkPage (pages bookResult)
      (?m, [], emptySummary (length (pages bookResult))) = (rem, ch, s)"
    by (cases "fold checkPage (pages bookResult) (?m, [], emptySummary (length (pages bookResult)))")
  from analyzeChanges_Some[OF f] assms(1) have
    chg: "changes = ch @ map (\<lambda>entry. \<lparr> changePageNum = fst entry, changeType = Deleted,
                          oldHash = Some (existingHashOf (snd entry)), newHash = None,
                          hasAudioChange = None \<rparr>) rem"
    and sm: "summary = s \<lparr> deletedPages := deletedPages s @ map fst rem \<rparr>" by simp_all
  from find_first_page[OF assms(2)] obtain q where
    q: "find (\<lambda>p. pageNum p = ?n) (pages bookResult) = Some q" by blast
  let ?special = "startsWith (existingHashOf existing) ''recovered-''
               \<or> startsWith (existingHashOf existing) ''RESET-''
               \<or> existingHashOf existing \<noteq> imageHashNew (pageImage q)"
  have sp: ?special using assms(4) by blast
  from fold_checkPage_first[OF f q assms(3)] sp
  have ex: "\<exists>c\<in>set ch. changePageNum c = ?n \<and> oldHash c = Some (existingHashOf existing)
       \<and> changeType c = Modified" and inmod: "?n \<in> set (modifiedPages s)"
    by (auto simp only: if_True)
  have notun: "?n \<notin> set (unchangedPages s)"
  proof
    assume "?n \<in> set (unchangedPages s)"
    from fold_checkPage_unchanged_origin[OF f this] assms(3,4) show False by auto
  qed
  have nounch: "changeType c \<noteq> Unchanged" if c: "c \<in> set changes" "changePageNum c = ?n" for c
  proof (cases "c \<in> set ch")
    case False
    with c(1) chg show ?thesis by auto
  next
    case True
    from fold_checkPage_origin[OF f True] obtain p :: "'s PageData" where
      p: "p \<in> set (pages bookResult)" "changePageNum c = pageNum p"
      "case mapGet ?m (pageNum p) of
            None \<Rightarrow> changeType c = New \<and> oldHash c = None
          | Some e \<Rightarrow> (changeType c = New \<and> oldHash c = None)
              \<or> (oldHash c = Some (existingHashOf e)
                  \<and> changeType c =
                      (if startsWith (existingHashOf e) ''recovered-''
                          \<or> startsWith (existingHashOf e) ''RESET-''
                          \<or> existingHashOf e \<noteq> imageHashNew (pageImage p)
                       then Modified else Unchanged))"
      by auto
    from p(2) c(2) have "pageNum p = ?n" by simp
    with p(3) assms(3,4) show ?thesis by auto
  qed
  from ex chg have ex': "\<exists>c\<in>set changes. changePageNum c = ?n \<and> changeType c = Modified
              \<and> oldHash c = Some (existingHashOf existing)" by auto
  from inmod notun sm ex' nounch show ?thesis by simp
qed

theorem sentinel_dominance_witness:
  "analyzeChanges noFaults (\<lambda>p. None) exampleSettings
      (exampleBook [examplePage 1 ''RESET-17''])
      (Some (exampleManifest [(1, examplePageInfo ''RESET-17'')]))
     = ([\<lparr> changePageNum = 1, changeType = Modified, oldHash = Some ''RESET-17'',
           newHash = Some ''RESET-17'', hasAudioChange = Some False \<rparr>],
        \<lparr> summaryTotalPages = 1, newPages = [], modifiedPages = [1], unchangedPages = [],
          deletedPages = [], errors = [] \<rparr>)
   \<and> startsWith ''RESET-17'' ''RESET-''
   \<and> (1::nat) \<in> set [1] \<and> (1::nat) \<notin> set []"
proof -
  let ?book = "exampleBook [examplePage 1 ''RESET-17'']"
  let ?man = "exampleManifest [(1, examplePageInfo ''RESET-17'')]"
  let ?ex = "\<lparr> manifestInfo = examplePageInfo ''RESET-17'', fileHash = None \<rparr>"
  have h1: "analyzeChanges noFaults (\<lambda>p. None) exampleSettings ?book (Some ?man)
     = ([\<lparr> changePageNum = 1, changeType = Modified, oldHash = Some ''RESET-17'',
           newHash = Some ''RESET-17'', hasAudioChange = Some False \<rparr>],
        \<lparr> summaryTotalPages = 1, newPages = [], modifiedPages = [1], unchangedPages = [],
          deletedPages = [], errors = [] \<rparr>)"
    by code_simp
  have h2: "examplePage 1 ''RESET-17'' \<in> set (pages ?book)" by (simp add: exampleBook_def)
  have h3: "mapGet (buildExistingMap noFaults (\<lambda>p. None) (bookFolderOf exampleSettings (bookNameOf ?book))
                  (importedPages ?man)) (pageNum (examplePage 1 ''RESET-17'')) = Some ?ex"
    by code_simp
  have h4: "startsWith (existingHashOf ?ex) ''recovered-'' \<or> startsWith (existingHashOf ?ex) ''RESET-''"
    by code_simp
  have h5: "startsWith ''RESET-17'' ''RESET-''" by code_simp
  from sentinel_dominance[OF h1 h2 h3 h4] h1 h5 show ?thesis by simp
qed

section \<open>A selected page number the book does not have\<close>

text \<open>
  Claim C10. Let \<open>p\<close> be a selected page number with no page in the decoded book. The
  callback for \<open>p\<close> returns at once and leaves the whole state as it was: no file is
  written, the manifest and the summary are not touched; the batches thus go exactly as
  for the selection without \<open>p\<close>. After a run that returns its summary, \<open>p\<close> is in
  none of \<open>newPages\<close>, \<open>modifiedPages\<close>, \<open>unchangedPages\<close>, \<open>deletedPages\<close> and has no entry
  in \<open>errors\<close>, the manifest entry of \<open>p\<close> is the one of the manifest the run started
  from (none without a manifest), and no image of \<open>p\<close> was queued for the Gemini pass.
\<close>

theorem absent_page_skipped:
  fixes bookResult :: "'s BookResult"
  assumes absent: "find (\<lambda>pg. pageNum pg = p) (pages bookResult) = None"
    and run: "importSelectedPagesWithProgress host settings bookResult sel existingManifest v
                = Some (Inr summary, st)"
  shows "(\<forall>hadManifest s. processPage host settings bookResult hadManifest p s = s)
       \<and> (\<forall>hadManifest s.
             fold (processPage host settings bookResult hadManifest) sel s
               = fold (processPage host settings bookResult hadManifest)
                   (filter (\<lambda>q. q \<noteq> p) sel) s)
       \<and> p \<notin> set (newPages summary) \<and> p \<notin> set (modifiedPages summary)
       \<and> p \<notin> set (unchangedPages summary) \<and> p \<notin> set (deletedPages summary)
       \<and> p \<notin> fst ` set (errors summary)
       \<and> objectGet (importedPages (rsManifest st)) p
           = (case existingManifest of
                Some m \<Rightarrow> objectGet (importedPages m) p
              | None \<Rightarrow> None)
       \<and> p \<notin> snd ` set (rsImageFiles st)"
proof -
  let ?P = "processPage host settings bookResult (existingManifest \<noteq> None)"
  let ?st0 = "startState host bookResult sel existingManifest v"
  let ?st1 = "fold ?P sel ?st0"
  from run_cases[OF run] have f: "finishRun host settings bookResult sel ?st1 = (Inr summary, st)"
    by auto
  from finishRun_fields[OF f] have summ: "summary = rsSummary ?st1" by simp
  have skip1: "\<forall>hadManifest s. processPage host settings bookResult hadManifest p s = s"
    using absent by (simp add: processPage_absent)
  have skip: "\<forall>hadManifest s.
             fold (processPage host settings bookResult hadManifest) sel s
               = fold (processPage host settings bookResult hadManifest)
                   (filter (\<lambda>q. q \<noteq> p) sel) s"
    using fold_processPage_skip[OF absent] by blast
  have notfound: "p \<notin> {q \<in> set sel. find (\<lambda>pg. pageNum pg = q) (pages bookResult) \<noteq> None}"
    using absent by simp
  have n: "p \<notin> set (newPages summary)"
    using fold_processPage_newPages[of host settings bookResult "existingManifest \<noteq> None" sel ?st0]
      notfound unfolding summ by (auto simp: startState_fields)
  have m: "p \<notin> set (modifiedPages summary)"
    using fold_processPage_modifiedPages[of host settings bookResult "existingManifest \<noteq> None" sel ?st0]
      notfound unfolding summ by (auto simp: startState_fields)
  have u: "p \<notin> set (unchangedPages summary)"
    using fold_processPage_unchangedPages[of host settings bookResult "existingManifest \<noteq> None" sel ?st0]
      notfound unfolding summ by (auto simp: startState_fields)
  have d: "p \<notin> set (deletedPages summary)"
    unfolding summ by (simp add: fold_processPage_deletedPages startState_fields)
  have e: "p \<notin> fst ` set (errors summary)"
    using fold_processPage_errorPages[of host settings bookResult "existingManifest \<noteq> None" sel ?st0]
      notfound unfolding summ by (auto simp: startState_fields)
  have files1: "p \<notin> snd ` set (rsImageFiles ?st1)"
    using fold_processPage_imageFiles[of host settings bookResult "existingManifest \<noteq> None" sel ?st0]
      notfound by (auto simp: startState_fields)
  have files: "p \<notin> snd ` set (rsImageFiles st)"
    using files1 finishRun_entry(1)[OF f] by simp
  have "objectGet (importedPages (rsManifest ?st1)) p
          = objectGet (importedPages (rsManifest (fold ?P (filter (\<lambda>q. q \<noteq> p) sel) ?st0))) p"
    using skip by simp
  also have "\<dots> = objectGet (importedPages (rsManifest ?st0)) p"
    by (rule fold_processPage_entry_other) simp
  also have "\<dots> = (case existingManifest of
                Some m \<Rightarrow> objectGet (importedPages m) p
              | None \<Rightarrow> None)"
    by (simp add: startState_fields objectGet_def split: option.splits)
  finally have e1: "objectGet (importedPages (rsManifest ?st1)) p
          = (case existingManifest of
                Some m \<Rightarrow> objectGet (importedPages m) p
              | None \<Rightarrow> None)" .
  have entry: "objectGet (importedPages (rsManifest st)) p
           = (case existingManifest of
                Some m \<Rightarrow> objectGet (importedPages m) p
              | None \<Rightarrow> None)"
    using finishRun_entry(2)[OF f, of p] files1 e1 by auto
  from skip1 skip n m u d e entry files show ?thesis by (intro conjI)
qed

theorem absent_page_skipped_witness:
  "\<exists>summary st.
     importSelectedPagesWithProgress exampleHost exampleSettings
       (exampleBook [examplePage 1 ''aa'']) [1, 2]
       (Some (exampleManifest [(1, examplePageInfo ''aa''), (2, examplePageInfo ''bb'')]))
       (\<lambda>p. None) = Some (Inr summary, st)
     \<and> 2 \<notin> set (newPages summary) \<and> 2 \<notin> set (modifiedPages summary)
     \<and> 2 \<notin> set (unchangedPages summary) \<and> 2 \<notin> set (deletedPages summary)
     \<and> 2 \<notin> fst ` set (errors summary)
     \<and> objectGet (importedPages (rsManifest st)) 2 = Some (examplePageInfo ''bb'')"
proof -
  let ?m = "exampleManifest [(1, examplePageInfo ''aa''), (2, examplePageInfo ''bb'')]"
  let ?b = "exampleBook [examplePage 1 ''aa'']"
  have bs: "0 < batchSize exampleSettings" by (simp add: exampleSettings_def)
  from run_returns_summary[of exampleSettings exampleHost "\<lambda>p. None" ?b "[1, 2]" "Some ?m", OF bs]
  obtain summary st where run:
    "importSelectedPagesWithProgress exampleHost exampleSettings ?b [1, 2] (Some ?m) (\<lambda>p. None)
       = Some (Inr summary, st)"
    by auto
  have absent: "find (\<lambda>pg. pageNum pg = 2) (pages ?b) = None"
    by (simp add: exampleBook_def examplePage_def)
  from absent_page_skipped[OF absent run]
  have "2 \<notin> set (newPages summary) \<and> 2 \<notin> set (modifiedPages summary)
     \<and> 2 \<notin> set (unchangedPages summary) \<and> 2 \<notin> set (deletedPages summary)
     \<and> 2 \<notin> fst ` set (errors summary)
     \<and> objectGet (importedPages (rsManifest st)) 2 = Some (examplePageInfo ''bb'')"
    by (simp add: exampleManifest_def objectGet_def)
  with run show ?thesis by blast
qed

section \<open>An exception in one page does not stop the run\<close>

text \<open>
  Claim C2, amended. Take a run over a selection without repetitions, with a positive batch
  size, in which the calls outside the page callbacks (creating the two folders, writing the
  index) do not throw. The run returns its summary, whatever the pages do. For every selected
  page \<open>n\<close> of the book, the \<open>try\<close> block of its own callback decides alone, run on the state
  left by the pages selected before it:

  \<^item> if it throws \<open>err\<close>, the summary has the error entry \<open>(n, err)\<close> and the manifest entry of
    \<open>n\<close> is the one the run started with, except that the Gemini pass, when it is on,
    may have set \<open>geminiProcessed\<close> in it;
  \<^item> if it does not throw, \<open>n\<close> has no error entry and its manifest entry is the updated one
    (again up to \<open>geminiProcessed\<close> set by the Gemini pass).

  An exception of the image step is caught inside the \<open>try\<close> block, so it belongs to the
  second case.
\<close>

theorem page_failure_isolated:
  fixes bookResult :: "'s BookResult" and page :: "'s PageData"
  assumes bs: "0 < batchSize settings"
    and f1: "hostFaults host v (OpEnsureFolder (bookFolderOf settings (bookNameOf bookResult))) = None"
    and f2: "hostFaults host v (OpEnsureFolder (bookFolderOf settings (bookNameOf bookResult)
                                             @ ''/'' @ imagesFolder settings)) = None"
    and ix: "createIndex settings \<longrightarrow>
             (\<forall>w. hostFaults host w
                     (OpModify (bookFolderOf settings (bookNameOf bookResult) @ ''/Index.md'')) = None
                \<and> hostFaults host w
                     (OpCreate (bookFolderOf settings (bookNameOf bookResult) @ ''/Index.md'')) = None)"
    and dist: "distinct (before @ n # after)"
    and found: "find (\<lambda>p. pageNum p = n) (pages bookResult) = Some page"
  shows "\<exists>summary st.
     importSelectedPagesWithProgress host settings bookResult (before @ n # after)
       existingManifest v = Some (Inr summary, st)
     \<and> (\<forall>err.
          fst (pageTry host settings bookResult (existingManifest \<noteq> None) page
                 (fold (processPage host settings bookResult (existingManifest \<noteq> None)) before
                    (startState host bookResult (before @ n # after) existingManifest v)))
            = Inl err \<longrightarrow>
          (n, err) \<in> set (errors summary)
          \<and> (objectGet (importedPages (rsManifest st)) n
                = objectGet (importedPages (case existingManifest of Some m \<Rightarrow> m
                                            | None \<Rightarrow> initialManifest host bookResult)) n
             \<or> (processWithGeminiSetting settings
                 \<and> objectGet (importedPages (rsManifest st)) n
                     = map_option (\<lambda>i. i \<lparr> geminiProcessed := True \<rparr>)
                         (objectGet (importedPages (case existingManifest of Some m \<Rightarrow> m
                                            | None \<Rightarrow> initialManifest host bookResult)) n))))
     \<and> (\<forall>u.
          fst (pageTry host settings bookResult (existingManifest \<noteq> None) page
                 (fold (processPage host settings bookResult (existingManifest \<noteq> None)) before
                    (startState host bookResult (before @ n # after) existingManifest v)))
            = Inr u \<longrightarrow>
          n \<notin> fst ` set (errors summary)
          \<and> (objectGet (importedPages (rsManifest st)) n
                = Some (updatedEntry host settings page
                          (case existingManifest of Some m \<Rightarrow> m
                           | None \<Rightarrow> initialManifest host bookResult))
             \<or> (processWithGeminiSetting settings
                 \<and> objectGet (importedPages (rsManifest st)) n
                     = Some ((updatedEntry host settings page
                               (case existingManifest of Some m \<Rightarrow> m
                                | None \<Rightarrow> initialManifest host bookResult))
                             \<lparr> geminiProcessed := True \<rparr>))))"
proof -
  let ?sel = "before @ n # after"
  let ?hm = "existingManifest \<noteq> None"
  let ?P = "processPage host settings bookResult ?hm"
  let ?st0 = "startState host bookResult ?sel existingManifest v"
  let ?st1 = "fold ?P ?sel ?st0"
  let ?m0 = "case existingManifest of Some m \<Rightarrow> m | None \<Rightarrow> initialManifest host bookResult"
  let ?t = "fst (pageTry host settings bookResult ?hm page (fold ?P before ?st0))"
  let ?g = "map_option (\<lambda>i. i \<lparr> geminiProcessed := True \<rparr>)"
  from find_Some_set[OF found] have pn: "pageNum page = n" by simp
  from run_returns_summary[OF bs f1 f2 ix, of ?sel existingManifest]
  obtain st where run:
    "importSelectedPagesWithProgress host settings bookResult ?sel existingManifest v
       = Some (Inr (rsSummary ?st1), st)"
    by blast
  from run_cases[OF run] have f: "finishRun host settings bookResult ?sel ?st1
                                    = (Inr (rsSummary ?st1), st)"
    by auto
  note fin = finishRun_entry_cases[OF f, of n]
  have e0: "errors (rsSummary ?st0) = []" by (simp add: startState_fields)
  have s0: "objectGet (importedPages (rsManifest ?st0)) n = objectGet (importedPages ?m0) n"
    by (rule startState_entry)
  have throws: "(n, err) \<in> set (errors (rsSummary ?st1))
          \<and> (objectGet (importedPages (rsManifest st)) n = objectGet (importedPages ?m0) n
             \<or> (processWithGeminiSetting settings
                 \<and> objectGet (importedPages (rsManifest st)) n
                     = ?g (objectGet (importedPages ?m0) n)))"
    if t: "?t = Inl err" for err
  proof -
    note th = fold_processPage_throws[OF found dist t]
    from th(2) s0 have "objectGet (importedPages (rsManifest ?st1)) n
                          = objectGet (importedPages ?m0) n" by simp
    with fin have "objectGet (importedPages (rsManifest st)) n = objectGet (importedPages ?m0) n
             \<or> (processWithGeminiSetting settings
                 \<and> objectGet (importedPages (rsManifest st)) n
                     = ?g (objectGet (importedPages ?m0) n))"
      by presburger
    with th(1) show ?thesis by (rule conjI)
  qed
  have returns: "n \<notin> fst ` set (errors (rsSummary ?st1))
          \<and> (objectGet (importedPages (rsManifest st)) n
                = Some (updatedEntry host settings page ?m0)
             \<or> (processWithGeminiSetting settings
                 \<and> objectGet (importedPages (rsManifest st)) n
                     = Some ((updatedEntry host settings page ?m0) \<lparr> geminiProcessed := True \<rparr>)))"
    if t: "?t = Inr u" for u
  proof -
    note th = fold_processPage_returns[OF found dist t e0]
    have "updatedEntry host settings page (rsManifest ?st0) = updatedEntry host settings page ?m0"
      by (rule updatedEntry_cong) (simp only: pn s0)
    with th(2) have e1: "objectGet (importedPages (rsManifest ?st1)) n
                          = Some (updatedEntry host settings page ?m0)" by simp
    from fin have "objectGet (importedPages (rsManifest st)) n
                = Some (updatedEntry host settings page ?m0)
             \<or> (processWithGeminiSetting settings
                 \<and> objectGet (importedPages (rsManifest st)) n
                     = Some ((updatedEntry host settings page ?m0) \<lparr> geminiProcessed := True \<rparr>))"
      unfolding e1 by auto
    with th(1) show ?thesis by (rule conjI)
  qed
  from throws have A: "\<forall>err. ?t = Inl err \<longrightarrow>
          (n, err) \<in> set (errors (rsSummary ?st1))
          \<and> (objectGet (importedPages (rsManifest st)) n = objectGet (importedPages ?m0) n
             \<or> (processWithGeminiSetting settings
                 \<and> objectGet (importedPages (rsManifest st)) n
                     = ?g (objectGet (importedPages ?m0) n)))"
    by (intro allI impI)
  from returns have B: "\<forall>u. ?t = Inr u \<longrightarrow>
          n \<notin> fst ` set (errors (rsSummary ?st1))
          \<and> (objectGet (importedPages (rsManifest st)) n
                = Some (updatedEntry host settings page ?m0)
             \<or> (processWithGeminiSetting settings
                 \<and> objectGet (importedPages (rsManifest st)) n
                     = Some ((updatedEntry host settings page ?m0) \<lparr> geminiProcessed := True \<rparr>)))"
    by (intro allI impI)
  from run A B show ?thesis by (intro exI conjI)
qed

theorem page_failure_isolated_witness:
  "\<exists>summary st.
     importSelectedPagesWithProgress pageFaultHost exampleSettings threePageBook [1, 2, 3]
       None (\<lambda>p. None) = Some (Inr summary, st)
     \<and> (2, ''disk full'') \<in> set (errors summary)
     \<and> objectGet (importedPages (rsManifest st)) 2 = None
     \<and> 3 \<notin> fst ` set (errors summary)
     \<and> objectGet (importedPages (rsManifest st)) 3
         = Some (updatedEntry pageFaultHost exampleSettings (examplePage 3 ''cc'')
                   (initialManifest pageFaultHost threePageBook))"
proof -
  let ?h = pageFaultHost
  let ?b = threePageBook
  let ?st0 = "startState ?h ?b [1, 2, 3] None (\<lambda>p. None)"
  let ?P = "processPage ?h exampleSettings ?b False"
  have hm: "((None :: ImportManifest option) \<noteq> None) = False" by simp
  have bs: "0 < batchSize exampleSettings" by (simp add: exampleSettings_def)
  have f1: "hostFaults ?h (\<lambda>p. None)
              (OpEnsureFolder (bookFolderOf exampleSettings (bookNameOf ?b))) = None"
    by (simp add: pageFaultHost_def)
  have f2: "hostFaults ?h (\<lambda>p. None)
              (OpEnsureFolder (bookFolderOf exampleSettings (bookNameOf ?b)
                                 @ ''/'' @ imagesFolder exampleSettings)) = None"
    by (simp add: pageFaultHost_def)
  have bf: "bookFolderOf exampleSettings (bookNameOf ?b) = ''Viwoods Notes/Book''" by code_simp
  have ix: "createIndex exampleSettings \<longrightarrow>
             (\<forall>w. hostFaults ?h w
                     (OpModify (bookFolderOf exampleSettings (bookNameOf ?b) @ ''/Index.md'')) = None
                \<and> hostFaults ?h w
                     (OpCreate (bookFolderOf exampleSettings (bookNameOf ?b) @ ''/Index.md'')) = None)"
    unfolding bf by (simp add: pageFaultHost_def)
  have d2: "distinct ([1] @ 2 # [3 :: nat])" by simp
  have d3: "distinct ([1, 2] @ 3 # ([] :: nat list))" by simp
  have found2: "find (\<lambda>p. pageNum p = 2) (pages ?b) = Some (examplePage 2 ''bb'')"
    by (simp add: threePageBook_def exampleBook_def examplePage_def)
  have found3: "find (\<lambda>p. pageNum p = 3) (pages ?b) = Some (examplePage 3 ''cc'')"
    by (simp add: threePageBook_def exampleBook_def examplePage_def)
  have t2: "fst (pageTry ?h exampleSettings ?b False (examplePage 2 ''bb'') (fold ?P [1] ?st0))
              = Inl ''disk full''"
    by code_simp
  have t3: "fst (pageTry ?h exampleSettings ?b False (examplePage 3 ''cc'') (fold ?P [1, 2] ?st0))
              = Inr ()"
    by code_simp
  have ng: "\<not> processWithGeminiSetting exampleSettings" by (simp add: exampleSettings_def)
  have e2: "objectGet (importedPages (initialManifest ?h ?b)) 2 = None"
    by (simp add: initialManifest_def objectGet_def)
  from page_failure_isolated[OF bs f1 f2 ix d2 found2, of None, unfolded hm]
  obtain summary st where run:
      "importSelectedPagesWithProgress ?h exampleSettings ?b [1, 2, 3] None (\<lambda>p. None)
         = Some (Inr summary, st)"
    and A: "\<forall>err. fst (pageTry ?h exampleSettings ?b False (examplePage 2 ''bb'')
                         (fold ?P [1] ?st0)) = Inl err \<longrightarrow>
          (2, err) \<in> set (errors summary)
          \<and> (objectGet (importedPages (rsManifest st)) 2
                = objectGet (importedPages (case None of Some m \<Rightarrow> m
                                            | None \<Rightarrow> initialManifest ?h ?b)) 2
             \<or> (processWithGeminiSetting exampleSettings
                 \<and> objectGet (importedPages (rsManifest st)) 2
                     = map_option (\<lambda>i. i \<lparr> geminiProcessed := True \<rparr>)
                         (objectGet (importedPages (case None of Some m \<Rightarrow> m
                                            | None \<Rightarrow> initialManifest ?h ?b)) 2)))"
    by auto
  from A[rule_format, OF t2] ng e2
  have r2: "(2, ''disk full'') \<in> set (errors summary)"
    "objectGet (importedPages (rsManifest st)) 2 = None"
    by simp_all
  from page_failure_isolated[OF bs f1 f2 ix d3 found3, of None, unfolded hm]
  obtain summary' st' where run':
      "importSelectedPagesWithProgress ?h exampleSettings ?b [1, 2, 3] None (\<lambda>p. None)
         = Some (Inr summary', st')"
    and B: "\<forall>u. fst (pageTry ?h exampleSettings ?b False (examplePage 3 ''cc'')
                         (fold ?P [1, 2] ?st0)) = Inr u \<longrightarrow>
          3 \<notin> fst ` set (errors summary')
          \<and> (objectGet (importedPages (rsManifest st')) 3
                = Some (updatedEntry ?h exampleSettings (examplePage 3 ''cc'')
                          (case None of Some m \<Rightarrow> m | None \<Rightarrow> initialManifest ?h ?b))
             \<or> (processWithGeminiSetting exampleSettings
                 \<and> objectGet (importedPages (rsManifest st')) 3
                     = Some ((updatedEntry ?h exampleSettings (examplePage 3 ''cc'')
                               (case None of Some m \<Rightarrow> m | None \<Rightarrow> initialManifest ?h ?b))
                             \<lparr> geminiProcessed := True \<rparr>)))"
    by auto
  from run run' have same: "summary' = summary" "st' = st" by simp_all
  from B[rule_format, OF t3] ng
  have r3: "3 \<notin> fst ` set (errors summary)"
    "objectGet (importedPages (rsManifest st)) 3
         = Some (updatedEntry ?h exampleSettings (examplePage 3 ''cc'') (initialManifest ?h ?b))"
    unfolding same by simp_all
  from run r2 r3 show ?thesis by (intro exI conjI)
qed

text \<open>
  The claim as first stated has every exception of a page recorded in \<open>errors\<close> and the
  manifest entry of that page left as it was. Here creating the image file of page 1 throws
  \<open>disk full\<close>. The exception is caught inside the image step: the run returns no error
  entry at all, counts page 1 as a new page and writes its manifest entry with the
  fingerprint of the page, although no image file was written.
\<close>

theorem image_failure_not_recorded_counterexample:
  "fst (imageTry imageFaultHost exampleSettings
          (exampleBook [examplePage 1 ''aa'', examplePage 2 ''bb''])
          (examplePage 1 ''aa'') True True None (\<lambda>p. None)) = Inl ''disk full''
   \<and> (case importSelectedPagesWithProgress imageFaultHost exampleSettings
              (exampleBook [examplePage 1 ''aa'', examplePage 2 ''bb'']) [1, 2] None
              (\<lambda>p. None) of
         Some (Inr summary, st) \<Rightarrow>
           errors summary = []
           \<and> newPages summary = [1, 2]
           \<and> map_option imageHash (objectGet (importedPages (rsManifest st)) 1) = Some ''aa''
           \<and> rsVault st ''Viwoods Notes/Book/Images/Book_page_001.png'' = None
           \<and> rsVault st ''Viwoods Notes/Book/Images/Book_page_002.png'' = Some ''img''
       | _ \<Rightarrow> False)"
proof -
  let ?h = imageFaultHost
  let ?b = "exampleBook [examplePage 1 ''aa'', examplePage 2 ''bb'']"
  let ?st1 = "fold (processPage ?h exampleSettings ?b False) [1, 2]
                (startState ?h ?b [1, 2] None (\<lambda>p. None))"
  have hm: "((None :: ImportManifest option) \<noteq> None) = False" by simp
  have bs: "0 < batchSize exampleSettings" by (simp add: exampleSettings_def)
  have f1: "hostFaults ?h (\<lambda>p. None)
              (OpEnsureFolder (bookFolderOf exampleSettings (bookNameOf ?b))) = None"
    by (simp add: imageFaultHost_def)
  have f2: "hostFaults ?h (\<lambda>p. None)
              (OpEnsureFolder (bookFolderOf exampleSettings (bookNameOf ?b)
                                 @ ''/'' @ imagesFolder exampleSettings)) = None"
    by (simp add: imageFaultHost_def)
  have ix: "createIndex exampleSettings \<longrightarrow>
             (\<forall>w. hostFaults ?h w
                     (OpModify (bookFolderOf exampleSettings (bookNameOf ?b) @ ''/Index.md'')) = None
                \<and> hostFaults ?h w
                     (OpCreate (bookFolderOf exampleSettings (bookNameOf ?b) @ ''/Index.md'')) = None)"
    by (simp add: imageFaultHost_def)
  from run_returns_summary[OF bs f1 f2 ix, of "[1, 2]" None, unfolded hm]
  obtain st where run:
    "importSelectedPagesWithProgress ?h exampleSettings ?b [1, 2] None (\<lambda>p. None)
       = Some (Inr (rsSummary ?st1), st)"
    by auto
  from run_cases[OF run, unfolded hm]
  have st: "st = snd (finishRun ?h exampleSettings ?b [1, 2] ?st1)"
    by (auto dest: arg_cong[where f = snd])
  have thrown: "fst (imageTry ?h exampleSettings ?b (examplePage 1 ''aa'') True True None
                       (\<lambda>p. None)) = Inl ''disk full''"
    by code_simp
  have s: "errors (rsSummary ?st1) = []" "newPages (rsSummary ?st1) = [1, 2]"
    by code_simp+
  have m: "map_option imageHash
             (objectGet (importedPages (rsManifest (snd (finishRun ?h exampleSettings ?b [1, 2] ?st1)))) 1)
           = Some ''aa''"
    by code_simp
  have v1: "rsVault (snd (finishRun ?h exampleSettings ?b [1, 2] ?st1))
              ''Viwoods Notes/Book/Images/Book_page_001.png'' = None"
    by code_simp
  have v2: "rsVault (snd (finishRun ?h exampleSettings ?b [1, 2] ?st1))
              ''Viwoods Notes/Book/Images/Book_page_002.png'' = Some ''img''"
    by code_simp
  have after: "errors (rsSummary ?st1) = []
      \<and> newPages (rsSummary ?st1) = [1, 2]
      \<and> map_option imageHash (objectGet (importedPages (rsManifest st)) 1) = Some ''aa''
      \<and> rsVault st ''Viwoods Notes/Book/Images/Book_page_001.png'' = None
      \<and> rsVault st ''Viwoods Notes/Book/Images/Book_page_002.png'' = Some ''img''"
    using s m v1 v2 unfolding st by (intro conjI)
  have "case importSelectedPagesWithProgress ?h exampleSettings ?b [1, 2] None (\<lambda>p. None) of
          Some (Inr summary, st) \<Rightarrow>
            errors summary = []
            \<and> newPages summary = [1, 2]
            \<and> map_option imageHash (objectGet (importedPages (rsManifest st)) 1) = Some ''aa''
            \<and> rsVault st ''Viwoods Notes/Book/Images/Book_page_001.png'' = None
            \<and> rsVault st ''Viwoods Notes/Book/Images/Book_page_002.png'' = Some ''img''
        | _ \<Rightarrow> False"
    unfolding run using after by (simp only: option.case prod.case sum.case)
  with thrown show ?thesis by (intro conjI)
qed

text \<open>
  The Gemini pass can reach the manifest entry of a page whose callback threw. Page 1 is
  modified; its image is written and queued, then saving the page document throws. The
  Gemini pass later transcribes the queued image and sets \<open>geminiProcessed\<close> in the old
  entry of the page.
\<close>

lemma gemini_flag_on_failed_page:
  "errors (rsSummary (snd (finishRun transientFaultHost geminiSettings
     (exampleBook [examplePage 1 ''aa'']) [1]
     (fold (processPage transientFaultHost geminiSettings (exampleBook [examplePage 1 ''aa'']) True) [1]
        (startState transientFaultHost (exampleBook [examplePage 1 ''aa'']) [1]
           (Some (exampleManifest [(1, examplePageInfo ''zz'')])) (exampleVault ''zz''))))))
     = [(1, ''file busy'')]"
  "objectGet (importedPages (rsManifest (snd (finishRun transientFaultHost geminiSettings
     (exampleBook [examplePage 1 ''aa'']) [1]
     (fold (processPage transientFaultHost geminiSettings (exampleBook [examplePage 1 ''aa'']) True) [1]
        (startState transientFaultHost (exampleBook [examplePage 1 ''aa'']) [1]
           (Some (exampleManifest [(1, examplePageInfo ''zz'')])) (exampleVault ''zz'')))))))
     1
     = Some ((examplePageInfo ''zz'') \<lparr> geminiProcessed := True \<rparr>)"
  by code_simp+

section \<open>The fingerprint embedded in the page file\<close>

text \<open>
  For a page number with a manifest entry and a page in the decoded book, what
  \<open>readFileHash\<close> returns for the page file decides: when it returns a fingerprint, the
  page is classified by comparing that fingerprint with the fresh one (unchanged when equal,
  modified otherwise) and every old fingerprint recorded for the page is that one, whatever
  the manifest's \<open>imageHash\<close> is; when it returns none, the manifest's \<open>imageHash\<close> is
  the baseline.
\<close>

lemma embedded_fingerprint_preferred:
  fixes bookResult :: "'s BookResult" and page :: "'s PageData"
  assumes "analyzeChanges fl v settings bookResult (Some manifest) = (changes, summary)"
    and "objectGet (importedPages manifest) n = Some info"
    and "find (\<lambda>p. pageNum p = n) (pages bookResult) = Some page"
  shows "case readFileHash fl v (bookFolderOf settings (bookNameOf bookResult)) n of
           Some h \<Rightarrow>
             (\<exists>c\<in>set changes. changePageNum c = n \<and> oldHash c = Some h
                 \<and> newHash c = Some (imageHashNew (pageImage page))
                 \<and> changeType c =
                     (if h = imageHashNew (pageImage page) then Unchanged else Modified))
             \<and> (\<forall>c\<in>set changes. changePageNum c = n \<longrightarrow> oldHash c = None \<or> oldHash c = Some h)
         | None \<Rightarrow>
             (\<exists>c\<in>set changes. changePageNum c = n \<and> oldHash c = Some (imageHash info)
                 \<and> newHash c = Some (imageHashNew (pageImage page))
                 \<and> changeType c =
                     (if startsWith (imageHash info) ''recovered-''
                         \<or> startsWith (imageHash info) ''RESET-''
                         \<or> imageHash info \<noteq> imageHashNew (pageImage page)
                      then Modified else Unchanged))
             \<and> (\<forall>c\<in>set changes. changePageNum c = n \<longrightarrow>
                    oldHash c = None \<or> oldHash c = Some (imageHash info))"
proof -
  let ?bf = "bookFolderOf settings (bookNameOf bookResult)"
  let ?m = "buildExistingMap fl v ?bf (importedPages manifest)"
  let ?e = "\<lparr> manifestInfo = info, fileHash = readFileHash fl v ?bf n \<rparr>"
  have get: "mapGet ?m n = Some ?e" using assms(2) by (simp add: buildExistingMap_get)
  obtain rem ch s where f: "fold checkPage (pages bookResult)
      (?m, [], emptySummary (length (pages bookResult))) = (rem, ch, s)"
    by (cases "fold checkPage (pages bookResult) (?m, [], emptySummary (length (pages bookResult)))")
  from analyzeChanges_Some[OF f] assms(1) have
    chg: "changes = ch @ map (\<lambda>entry. \<lparr> changePageNum = fst entry, changeType = Deleted,
                          oldHash = Some (existingHashOf (snd entry)), newHash = None,
                          hasAudioChange = None \<rparr>) rem" by simp
  from fold_checkPage_first[OF f assms(3) get]
  have ex: "\<exists>c\<in>set changes. changePageNum c = n \<and> oldHash c = Some (existingHashOf ?e)
       \<and> newHash c = Some (imageHashNew (pageImage page))
       \<and> changeType c =
           (if startsWith (existingHashOf ?e) ''recovered-''
               \<or> startsWith (existingHashOf ?e) ''RESET-''
               \<or> existingHashOf ?e \<noteq> imageHashNew (pageImage page)
            then Modified else Unchanged)"
    unfolding chg by auto
  have inbook: "n \<in> pageNum ` set (pages bookResult)"
    using find_Some_set[OF assms(3)] by auto
  have remn: "n \<notin> fst ` set rem" using fold_checkPage_keys[OF f] inbook by simp
  have olds: "oldHash c = None \<or> oldHash c = Some (existingHashOf ?e)"
    if c: "c \<in> set changes" "changePageNum c = n" for c
  proof (cases "c \<in> set ch")
    case False
    with c(1) chg obtain entry where "entry \<in> set rem" "changePageNum c = fst entry" by auto
    with c(2) remn show ?thesis by auto
  next
    case True
    from fold_checkPage_origin[OF f True] have
      "\<exists>p::'s PageData\<in>set (pages bookResult). changePageNum c = pageNum p
         \<and> newHash c = Some (imageHashNew (pageImage p))
         \<and> (case mapGet ?m (pageNum p) of
            None \<Rightarrow> changeType c = New \<and> oldHash c = None
          | Some e \<Rightarrow> (changeType c = New \<and> oldHash c = None)
              \<or> (oldHash c = Some (existingHashOf e)
                  \<and> changeType c =
                      (if startsWith (existingHashOf e) ''recovered-''
                          \<or> startsWith (existingHashOf e) ''RESET-''
                          \<or> existingHashOf e \<noteq> imageHashNew (pageImage p)
                       then Modified else Unchanged)))"
      by simp
    then obtain p :: "'s PageData" where pp: "changePageNum c = pageNum p
         \<and> newHash c = Some (imageHashNew (pageImage p))
         \<and> (case mapGet ?m (pageNum p) of
            None \<Rightarrow> changeType c = New \<and> oldHash c = None
          | Some e \<Rightarrow> (changeType c = New \<and> oldHash c = None)
              \<or> (oldHash c = Some (existingHashOf e)
                  \<and> changeType c =
                      (if startsWith (existingHashOf e) ''recovered-''
                          \<or> startsWith (existingHashOf e) ''RESET-''
                          \<or> existingHashOf e \<noteq> imageHashNew (pageImage p)
                       then Modified else Unchanged)))" ..
    note p = pp[THEN conjunct1] pp[THEN conjunct2, THEN conjunct2]
    from p(1) c(2) have "pageNum p = n" by simp
    with p(2) get show ?thesis by auto
  qed
  show ?thesis
  proof (cases "readFileHash fl v ?bf n")
    case None
    then have "existingHashOf ?e = imageHash info" by (simp add: existingHashOf_def)
    with ex olds None show ?thesis by simp
  next
    case (Some h)
    from readFileHash_hex[OF Some] have hx: "h \<noteq> []" "\<forall>c\<in>set h. isHexDigit c" by auto
    have eh: "existingHashOf ?e = h" using Some hx(1) by (simp add: existingHashOf_def)
    from hex_not_special[OF hx] have ns: "\<not> startsWith h ''recovered-''" "\<not> startsWith h ''RESET-''" .
    have "(if startsWith h ''recovered-'' \<or> startsWith h ''RESET-''
               \<or> h \<noteq> imageHashNew (pageImage page) then Modified else Unchanged)
        = (if h = imageHashNew (pageImage page) then Unchanged else Modified)"
      using ns by simp
    with ex olds eh Some show ?thesis by simp
  qed
qed

lemma embedded_fingerprint_preferred_example:
  "analyzeChanges noFaults (exampleVault ''0a1b'') exampleSettings
      (exampleBook [examplePage 1 ''ffff''])
      (Some (exampleManifest [(1, examplePageInfo ''ffff'')]))
     = ([\<lparr> changePageNum = 1, changeType = Modified, oldHash = Some ''0a1b'',
           newHash = Some ''ffff'', hasAudioChange = Some False \<rparr>],
        \<lparr> summaryTotalPages = 1, newPages = [], modifiedPages = [1], unchangedPages = [],
          deletedPages = [], errors = [] \<rparr>)
   \<and> objectGet (importedPages (exampleManifest [(1, examplePageInfo ''ffff'')])) 1
       = Some (examplePageInfo ''ffff'')
   \<and> readFileHash noFaults (exampleVault ''0a1b'') ''Viwoods Notes/Book'' 1 = Some ''0a1b''
   \<and> (\<exists>c\<in>set [\<lparr> changePageNum = 1, changeType = Modified, oldHash = Some ''0a1b'',
           newHash = Some ''ffff'', hasAudioChange = Some False \<rparr>].
         oldHash c = Some ''0a1b'' \<and> changeType c = Modified)"
proof -
  let ?book = "exampleBook [examplePage 1 ''ffff'']"
  let ?man = "exampleManifest [(1, examplePageInfo ''ffff'')]"
  let ?chs = "[\<lparr> changePageNum = 1, changeType = Modified, oldHash = Some ''0a1b'',
           newHash = Some ''ffff'', hasAudioChange = Some False \<rparr>]"
  have h1: "analyzeChanges noFaults (exampleVault ''0a1b'') exampleSettings ?book (Some ?man)
     = (?chs,
        \<lparr> summaryTotalPages = 1, newPages = [], modifiedPages = [1], unchangedPages = [],
          deletedPages = [], errors = [] \<rparr>)"
    by code_simp
  have h2: "objectGet (importedPages ?man) 1 = Some (examplePageInfo ''ffff'')" by code_simp
  have h3: "find (\<lambda>p. pageNum p = 1) (pages ?book) = Some (examplePage 1 ''ffff'')" by code_simp
  have h4: "readFileHash noFaults (exampleVault ''0a1b'') (bookFolderOf exampleSettings (bookNameOf ?book)) 1 = Some ''0a1b''"
    by code_simp
  have h5: "readFileHash noFaults (exampleVault ''0a1b'') ''Viwoods Notes/Book'' 1 = Some ''0a1b''"
    by code_simp
  have h6: "imageHashNew (pageImage (examplePage 1 ''ffff'')) = ''ffff''" by code_simp
  from embedded_fingerprint_preferred[OF h1 h2 h3]
  have "\<exists>c\<in>set ?chs. oldHash c = Some ''0a1b'' \<and> changeType c = Modified"
    unfolding h4 h6 by simp
  with h1 h2 h5 show ?thesis by simp
qed

lemma beforeFirst_no_newline:
  "CHR 0x0A \<notin> set xs \<Longrightarrow>
   beforeFirst (CHR 0x0A # p) (xs @ ys) = map_option ((@) xs) (beforeFirst (CHR 0x0A # p) ys)"
proof (induction xs)
  case Nil
  show ?case by (simp add: option.map_ident)
next
  case (Cons c cs)
  then have c: "c \<noteq> CHR 0x0A" and cs: "CHR 0x0A \<notin> set cs" by auto
  have "\<not> startsWith (c # cs @ ys) (CHR 0x0A # p)" using c by (simp add: startsWith_def)
  then show ?case using Cons.IH[OF cs] by (simp add: option.map_comp comp_def)
qed

lemma hex_not_newline: "isHexDigit c \<Longrightarrow> c \<noteq> CHR 0x0A"
  by (auto simp: isHexDigit_def)

lemma takeWhile_hex_prefix:
  assumes "\<forall>c\<in>set d. isHexDigit c" and "rest = [] \<or> \<not> isHexDigit (hd rest)"
  shows "takeWhile isHexDigit (d @ rest @ [CHR 0x22]) = d"
proof -
  have q: "\<not> isHexDigit (CHR 0x22)" by (simp add: isHexDigit_def)
  have "takeWhile isHexDigit (rest @ [CHR 0x22]) = []"
    using assms(2) q by (cases rest) simp_all
  with assms(1) show ?thesis by (simp add: takeWhile_append2)
qed

text \<open>
  What the analyzer reads back from a page document with the frontmatter lines
  \<open>book\<close>, \<open>page\<close> and \<open>original_image_hash\<close>: of the value written between the quotes,
  the longest run of lower-case hexadecimal digits it starts with.
\<close>

lemma frontmatterOf_examplePageFile:
  assumes "CHR 0x0A \<notin> set h"
  shows "frontmatterOf (examplePageFile h)
           = Some (''book: '' @ [CHR 0x22] @ ''Book'' @ [CHR 0x22, CHR 0x0A] @ ''page: 1''
                   @ [CHR 0x0A] @ ''original_image_hash: '' @ [CHR 0x22] @ h @ [CHR 0x22])"
  using assms
  by (simp add: frontmatterOf_def examplePageFile_def startsWith_def beforeFirst_no_newline)

lemma hashMatch_example_frontmatter:
  assumes "d \<noteq> []" and "\<forall>c\<in>set d. isHexDigit c" and "rest = [] \<or> \<not> isHexDigit (hd rest)"
  shows "hashMatch (''book: '' @ [CHR 0x22] @ ''Book'' @ [CHR 0x22, CHR 0x0A] @ ''page: 1''
                   @ [CHR 0x0A] @ ''original_image_hash: '' @ [CHR 0x22] @ (d @ rest) @ [CHR 0x22])
           = Some d"
proof -
  have sp: "isSpace (CHR '' '')" "\<not> isSpace (CHR 0x22)" by (simp_all add: isSpace_def)
  have at: "hashMatchAt (''original_image_hash: '' @ [CHR 0x22] @ (d @ rest) @ [CHR 0x22]) = Some d"
    using takeWhile_hex_prefix[OF assms(2,3)] assms(1) sp
    by (simp add: hashMatchAt_def startsWith_def Let_def)
  have no: "hashMatchAt (c # cs) = None" if "c \<noteq> CHR ''o''" for c cs
    using that by (simp add: hashMatchAt_def startsWith_def)
  have no2: "hashMatchAt (CHR ''o'' # c # cs) = None" if "c \<noteq> CHR ''r''" for c cs
    using that by (simp add: hashMatchAt_def startsWith_def)
  have "hashMatch (''book: '' @ [CHR 0x22] @ ''Book'' @ [CHR 0x22, CHR 0x0A] @ ''page: 1''
                   @ [CHR 0x0A] @ ''original_image_hash: '' @ [CHR 0x22] @ (d @ rest) @ [CHR 0x22])
        = hashMatch (''original_image_hash: '' @ [CHR 0x22] @ (d @ rest) @ [CHR 0x22])"
    by (simp add: no no2)
  also have "\<dots> = Some d" using at by simp
  finally show ?thesis .
qed

lemma readFileHash_examplePageFile:
  assumes "d \<noteq> []" and "\<forall>c\<in>set d. isHexDigit c" and "rest = [] \<or> \<not> isHexDigit (hd rest)"
    and "CHR 0x0A \<notin> set rest"
  shows "readFileHash noFaults (exampleVault (d @ rest)) ''Viwoods Notes/Book'' 1 = Some d"
proof -
  have nl: "CHR 0x0A \<notin> set (d @ rest)" using assms(2,4) hex_not_newline by auto
  have p: "''Viwoods Notes/Book'' @ ''/'' @ pageFileName 1 = ''Viwoods Notes/Book/Page 001.md''"
    by code_simp
  have v: "exampleVault (d @ rest) ''Viwoods Notes/Book/Page 001.md''
             = Some (examplePageFile (d @ rest))"
    by (simp add: exampleVault_def)
  have m: "(case frontmatterOf (examplePageFile (d @ rest)) of
              None \<Rightarrow> None
            | Some frontmatter \<Rightarrow> hashMatch frontmatter) = Some d"
    by (simp only: frontmatterOf_examplePageFile[OF nl] option.case
          hashMatch_example_frontmatter[OF assms(1,2,3)])
  show ?thesis
    unfolding readFileHash_def Let_def p v
    by (simp only: option.case noFaults_none m)
qed

text \<open>
  So for such a page document the baseline is read from the document: whatever the manifest
  entry says, page 1 is classified against the lower-case hexadecimal digits the embedded
  value starts with. For a digest, which is made of such digits only, that is the embedded
  fingerprint itself.
\<close>

lemma embedded_hex_value_decides:
  assumes d: "d \<noteq> []" "\<forall>c\<in>set d. isHexDigit c"
    and rest: "rest = [] \<or> \<not> isHexDigit (hd rest)" "CHR 0x0A \<notin> set rest"
  shows "\<exists>c\<in>set (fst (analyzeChanges noFaults (exampleVault (d @ rest)) exampleSettings
                        (exampleBook [examplePage 1 fresh])
                        (Some (exampleManifest [(1, info)])))).
           changePageNum c = 1 \<and> oldHash c = Some d \<and> newHash c = Some fresh
           \<and> changeType c = (if d = fresh then Unchanged else Modified)"
proof -
  let ?book = "exampleBook [examplePage 1 fresh]"
  let ?man = "exampleManifest [(1, info)]"
  obtain changes summary where a:
    "analyzeChanges noFaults (exampleVault (d @ rest)) exampleSettings ?book (Some ?man)
       = (changes, summary)"
    by (cases "analyzeChanges noFaults (exampleVault (d @ rest)) exampleSettings ?book (Some ?man)")
  have h2: "objectGet (importedPages ?man) 1 = Some info"
    by (simp add: exampleManifest_def objectGet_def)
  have h3: "find (\<lambda>p. pageNum p = 1) (pages ?book) = Some (examplePage 1 fresh)"
    by (simp add: exampleBook_def examplePage_def)
  have bf: "bookFolderOf exampleSettings (bookNameOf ?book) = ''Viwoods Notes/Book''"
    by (simp add: bookFolderOf_def exampleSettings_def exampleBook_def)
  have fr: "imageHashNew (pageImage (examplePage 1 fresh)) = fresh"
    by (simp add: examplePage_def)
  from embedded_fingerprint_preferred[OF a h2 h3]
  show ?thesis
    unfolding bf readFileHash_examplePageFile[OF d rest] fr a by auto
qed

text \<open>
  Claim C3 has the analyzer take the fingerprint embedded in the page document as the
  baseline whenever the document has one. The executor embeds the fingerprint of the page
  as it is (line 1981), the analyzer reads it back with a pattern that accepts lower-case
  hexadecimal digits only (line 1374). For a page whose digest could not be computed the
  two do not fit. Importing the one-page book whose blob \<open>abc\<close> has no digest writes a page
  document with \<open>original_image_hash: "fallback-30000000000000000000000"\<close> and the same
  fingerprint into the manifest. Analyzing the same book again, the analyzer reads \<open>fa\<close>
  from the document, which is neither the embedded fingerprint nor the manifest's, and
  reports the page as modified with old fingerprint \<open>fa\<close>, although the embedded, the
  stored and the fresh fingerprint are one and the same string.
\<close>

theorem embedded_fallback_fingerprint_misread:
  "imageHashNew (pageImage (decodedPage (\<lambda>b. None) 1 ''abc''))
     = ''fallback-30000000000000000000000''
   \<and> (case importSelectedPagesWithProgress exampleHost exampleSettings fallbackBook [1] None
              (\<lambda>p. None) of
         Some (Inr summary, st) \<Rightarrow>
           rsVault st ''Viwoods Notes/Book/Page 001.md''
             = Some (''---'' @ newline
                     @ ''book: '' @ dquote @ ''Book'' @ dquote @ newline
                     @ ''page: 1'' @ newline
                     @ ''total_pages: 1'' @ newline
                     @ ''original_image_hash: '' @ dquote @ ''fallback-30000000000000000000000''
                         @ dquote @ newline
                     @ ''import_date: 2025-03-01T00:00:00.000Z'' @ newline
                     @ ''last_modified: 2025-03-01T00:00:00.000Z'' @ newline
                     @ ''image: '' @ dquote @ ''Book_page_001.png'' @ dquote @ newline
                     @ ''tags: [viwoods-import, handwritten, book]'' @ newline
                     @ ''---'' @ newline @ newline
                     @ ''![[Book_page_001.png]]'' @ newline @ newline)
           \<and> map_option imageHash (objectGet (importedPages (rsManifest st)) 1)
               = Some ''fallback-30000000000000000000000''
           \<and> readFileHash noFaults (rsVault st) ''Viwoods Notes/Book'' 1 = Some ''fa''
           \<and> analyzeChanges noFaults (rsVault st) exampleSettings fallbackBook
                 (Some (rsManifest st))
               = ([\<lparr> changePageNum = 1, changeType = Modified, oldHash = Some ''fa'',
                     newHash = Some ''fallback-30000000000000000000000'',
                     hasAudioChange = Some False \<rparr>],
                  \<lparr> summaryTotalPages = 1, newPages = [], modifiedPages = [1],
                    unchangedPages = [], deletedPages = [], errors = [] \<rparr>)
       | _ \<Rightarrow> False)"
proof -
  let ?b = fallbackBook
  let ?st1 = "fold (processPage exampleHost exampleSettings ?b False) [1]
                (startState exampleHost ?b [1] None (\<lambda>p. None))"
  let ?fin = "snd (finishRun exampleHost exampleSettings ?b [1] ?st1)"
  have hm: "((None :: ImportManifest option) \<noteq> None) = False" by simp
  have bs: "0 < batchSize exampleSettings" by (simp add: exampleSettings_def)
  from run_returns_summary[of exampleSettings exampleHost "\<lambda>p. None" ?b "[1]" None, OF bs,
      unfolded hm]
  obtain st where run:
    "importSelectedPagesWithProgress exampleHost exampleSettings ?b [1] None (\<lambda>p. None)
       = Some (Inr (rsSummary ?st1), st)"
    by auto
  from run_cases[OF run, unfolded hm] have st: "st = ?fin"
    by (auto dest: arg_cong[where f = snd])
  have fresh: "imageHashNew (pageImage (decodedPage (\<lambda>b. None) 1 ''abc''))
                 = ''fallback-30000000000000000000000''"
    by code_simp
  have doc: "rsVault ?fin ''Viwoods Notes/Book/Page 001.md''
             = Some (''---'' @ newline
                     @ ''book: '' @ dquote @ ''Book'' @ dquote @ newline
                     @ ''page: 1'' @ newline
                     @ ''total_pages: 1'' @ newline
                     @ ''original_image_hash: '' @ dquote @ ''fallback-30000000000000000000000''
                         @ dquote @ newline
                     @ ''import_date: 2025-03-01T00:00:00.000Z'' @ newline
                     @ ''last_modified: 2025-03-01T00:00:00.000Z'' @ newline
                     @ ''image: '' @ dquote @ ''Book_page_001.png'' @ dquote @ newline
                     @ ''tags: [viwoods-import, handwritten, book]'' @ newline
                     @ ''---'' @ newline @ newline
                     @ ''![[Book_page_001.png]]'' @ newline @ newline)"
    by code_simp
  have man: "map_option imageHash (objectGet (importedPages (rsManifest ?fin)) 1)
               = Some ''fallback-30000000000000000000000''"
    by code_simp
  have rd: "readFileHash noFaults (rsVault ?fin) ''Viwoods Notes/Book'' 1 = Some ''fa''"
    by code_simp
  have an: "analyzeChanges noFaults (rsVault ?fin) exampleSettings fallbackBook
                 (Some (rsManifest ?fin))
               = ([\<lparr> changePageNum = 1, changeType = Modified, oldHash = Some ''fa'',
                     newHash = Some ''fallback-30000000000000000000000'',
                     hasAudioChange = Some False \<rparr>],
                  \<lparr> summaryTotalPages = 1, newPages = [], modifiedPages = [1],
                    unchangedPages = [], deletedPages = [], errors = [] \<rparr>)"
    by code_simp
  have after: "rsVault st ''Viwoods Notes/Book/Page 001.md''
             = Some (''---'' @ newline
                     @ ''book: '' @ dquote @ ''Book'' @ dquote @ newline
                     @ ''page: 1'' @ newline
                     @ ''total_pages: 1'' @ newline
                     @ ''original_image_hash: '' @ dquote @ ''fallback-30000000000000000000000''
                         @ dquote @ newline
                     @ ''import_date: 2025-03-01T00:00:00.000Z'' @ newline
                     @ ''last_modified: 2025-03-01T00:00:00.000Z'' @ newline
                     @ ''image: '' @ dquote @ ''Book_page_001.png'' @ dquote @ newline
                     @ ''tags: [viwoods-import, handwritten, book]'' @ newline
                     @ ''---'' @ newline @ newline
                     @ ''![[Book_page_001.png]]'' @ newline @ newline)
           \<and> map_option imageHash (objectGet (importedPages (rsManifest st)) 1)
               = Some ''fallback-30000000000000000000000''
           \<and> readFileHash noFaults (rsVault st) ''Viwoods Notes/Book'' 1 = Some ''fa''
           \<and> analyzeChanges noFaults (rsVault st) exampleSettings fallbackBook
                 (Some (rsManifest st))
               = ([\<lparr> changePageNum = 1, changeType = Modified, oldHash = Some ''fa'',
                     newHash = Some ''fallback-30000000000000000000000'',
                     hasAudioChange = Some False \<rparr>],
                  \<lparr> summaryTotalPages = 1, newPages = [], modifiedPages = [1],
                    unchangedPages = [], deletedPages = [], errors = [] \<rparr>)"
    using doc man rd an unfolding st by (intro conjI)
  have "case importSelectedPagesWithProgress exampleHost exampleSettings ?b [1] None
              (\<lambda>p. None) of
         Some (Inr summary, st) \<Rightarrow>
           rsVault st ''Viwoods Notes/Book/Page 001.md''
             = Some (''---'' @ newline
                     @ ''book: '' @ dquote @ ''Book'' @ dquote @ newline
                     @ ''page: 1'' @ newline
                     @ ''total_pages: 1'' @ newline
                     @ ''original_image_hash: '' @ dquote @ ''fallback-30000000000000000000000''
                         @ dquote @ newline
                     @ ''import_date: 2025-03-01T00:00:00.000Z'' @ newline
                     @ ''last_modified: 2025-03-01T00:00:00.000Z'' @ newline
                     @ ''image: '' @ dquote @ ''Book_page_001.png'' @ dquote @ newline
                     @ ''tags: [viwoods-import, handwritten, book]'' @ newline
                     @ ''---'' @ newline @ newline
                     @ ''![[Book_page_001.png]]'' @ newline @ newline)
           \<and> map_option imageHash (objectGet (importedPages (rsManifest st)) 1)
               = Some ''fallback-30000000000000000000000''
           \<and> readFileHash noFaults (rsVault st) ''Viwoods Notes/Book'' 1 = Some ''fa''
           \<and> analyzeChanges noFaults (rsVault st) exampleSettings fallbackBook
                 (Some (rsManifest st))
               = ([\<lparr> changePageNum = 1, changeType = Modified, oldHash = Some ''fa'',
                     newHash = Some ''fallback-30000000000000000000000'',
                     hasAudioChange = Some False \<rparr>],
                  \<lparr> summaryTotalPages = 1, newPages = [], modifiedPages = [1],
                    unchangedPages = [], deletedPages = [], errors = [] \<rparr>)
       | _ \<Rightarrow> False"
    unfolding run using after by (simp only: option.case prod.case sum.case)
  with fresh show ?thesis by (intro conjI)
qed

section \<open>Deletion detection\<close>

text \<open>
  Claim C4. The deleted pages are exactly the page numbers with a manifest entry and no page
  in the decoded book; the new, modified and unchanged lists together hold exactly the page
  numbers of the decoded book, one entry per decoded page; and the change records of type
  deleted and of the other types split the same way.
\<close>

theorem deletion_detection:
  fixes bookResult :: "'s BookResult"
  assumes "analyzeChanges fl v settings bookResult (Some manifest) = (changes, summary)"
  shows "set (deletedPages summary)
           = {n. objectGet (importedPages manifest) n \<noteq> None} - pageNum ` set (pages bookResult)
       \<and> set (newPages summary) \<union> set (modifiedPages summary) \<union> set (unchangedPages summary)
           = pageNum ` set (pages bookResult)
       \<and> length (newPages summary) + length (modifiedPages summary)
           + length (unchangedPages summary) = length (pages bookResult)
       \<and> summaryTotalPages summary = length (pages bookResult)
       \<and> changePageNum ` {c \<in> set changes. changeType c = Deleted}
           = {n. objectGet (importedPages manifest) n \<noteq> None} - pageNum ` set (pages bookResult)
       \<and> changePageNum ` {c \<in> set changes. changeType c \<noteq> Deleted}
           = pageNum ` set (pages bookResult)"
proof -
  let ?bf = "bookFolderOf settings (bookNameOf bookResult)"
  let ?m = "buildExistingMap fl v ?bf (importedPages manifest)"
  let ?del = "\<lambda>entry. \<lparr> changePageNum = fst entry, changeType = Deleted,
                          oldHash = Some (existingHashOf (snd entry)), newHash = None,
                          hasAudioChange = None \<rparr>"
  obtain rem ch s where f: "fold checkPage (pages bookResult)
      (?m, [], emptySummary (length (pages bookResult))) = (rem, ch, s)"
    by (cases "fold checkPage (pages bookResult) (?m, [], emptySummary (length (pages bookResult)))")
  from analyzeChanges_Some[OF f] assms(1) have
    chg: "changes = ch @ map ?del rem"
    and sm: "summary = s \<lparr> deletedPages := deletedPages s @ map fst rem \<rparr>" by simp_all
  have keys: "fst ` set ?m = {n. objectGet (importedPages manifest) n \<noteq> None}"
    by (auto simp: buildExistingMap_keys objectGet_def map_of_eq_None_iff)
  from fold_checkPage_keys[OF f] keys have remk:
    "fst ` set rem = {n. objectGet (importedPages manifest) n \<noteq> None} - pageNum ` set (pages bookResult)"
    by simp
  from fold_checkPage_grow[OF f] obtain cs a b c where g:
    "ch = cs" "newPages s = a" "modifiedPages s = b" "unchangedPages s = c"
    "set a \<union> set b \<union> set c = pageNum ` set (pages bookResult)"
    "length a + length b + length c = length (pages bookResult)"
    "map changePageNum cs = map pageNum (pages bookResult)"
    "\<forall>x\<in>set cs. changeType x \<noteq> Deleted"
    "deletedPages s = []" "summaryTotalPages s = length (pages bookResult)"
    by auto
  have d1: "set (deletedPages summary) = fst ` set rem" using sm g(9) by simp
  have c1: "{c \<in> set changes. changeType c = Deleted} = ?del ` set rem"
    using chg g(1,8) by auto
  have c2: "{c \<in> set changes. changeType c \<noteq> Deleted} = set cs"
    using chg g(1,8) by auto
  have c3: "changePageNum ` set cs = pageNum ` set (pages bookResult)"
    using g(7) by (metis set_map)
  have c4: "changePageNum ` ?del ` set rem = fst ` set rem" by (simp add: image_image)
  show ?thesis using d1 remk sm g c1 c2 c3 c4 by simp
qed

theorem deletion_detection_witness:
  "analyzeChanges noFaults (\<lambda>p. None) exampleSettings
      (exampleBook [examplePage 1 ''aa'', examplePage 2 ''b2''])
      (Some (exampleManifest [(1, examplePageInfo ''aa''), (2, examplePageInfo ''bb''),
                              (3, examplePageInfo ''cc'')]))
     = ([\<lparr> changePageNum = 1, changeType = Unchanged, oldHash = Some ''aa'',
           newHash = Some ''aa'', hasAudioChange = None \<rparr>,
         \<lparr> changePageNum = 2, changeType = Modified, oldHash = Some ''bb'',
           newHash = Some ''b2'', hasAudioChange = Some False \<rparr>,
         \<lparr> changePageNum = 3, changeType = Deleted, oldHash = Some ''cc'',
           newHash = None, hasAudioChange = None \<rparr>],
        \<lparr> summaryTotalPages = 2, newPages = [], modifiedPages = [2], unchangedPages = [1],
          deletedPages = [3], errors = [] \<rparr>)
   \<and> {n. objectGet [(1, examplePageInfo ''aa''), (2, examplePageInfo ''bb''),
                    (3, examplePageInfo ''cc'')] n \<noteq> None} - {1, 2} = {3::nat}"
proof -
  let ?book = "exampleBook [examplePage 1 ''aa'', examplePage 2 ''b2'']"
  let ?obj = "[(1, examplePageInfo ''aa''), (2, examplePageInfo ''bb''), (3, examplePageInfo ''cc'')]"
  let ?man = "exampleManifest ?obj"
  have h1: "analyzeChanges noFaults (\<lambda>p. None) exampleSettings ?book (Some ?man)
     = ([\<lparr> changePageNum = 1, changeType = Unchanged, oldHash = Some ''aa'',
           newHash = Some ''aa'', hasAudioChange = None \<rparr>,
         \<lparr> changePageNum = 2, changeType = Modified, oldHash = Some ''bb'',
           newHash = Some ''b2'', hasAudioChange = Some False \<rparr>,
         \<lparr> changePageNum = 3, changeType = Deleted, oldHash = Some ''cc'',
           newHash = None, hasAudioChange = None \<rparr>],
        \<lparr> summaryTotalPages = 2, newPages = [], modifiedPages = [2], unchangedPages = [1],
          deletedPages = [3], errors = [] \<rparr>)"
    by code_simp
  have h2: "importedPages ?man = ?obj" by (simp add: exampleManifest_def)
  have h3: "pageNum ` set (pages ?book) = {1, 2}"
    by (simp add: exampleBook_def examplePage_def)
  from deletion_detection[OF h1] have
    "set [3::nat] = {n. objectGet ?obj n \<noteq> None} - {1, 2}"
    unfolding h2 h3 by simp
  with h1 show ?thesis by simp
qed

section \<open>When the manifest is saved\<close>

text \<open>
  Claim C5, as the code has it. In a run that returns its summary, no page callback saves
  the manifest: after any number of selected pages the list of saves is still empty. The
  manifest is saved once after all batches, with the page entries the batches left and the
  history entry of the run. It is saved a second time, at the end of the Gemini pass, when
  that pass is enabled, at least one image was queued for it, and the plugin is enabled and
  accessible.
\<close>

theorem manifest_saved_after_batches:
  fixes bookResult :: "'s BookResult"
  assumes "importSelectedPagesWithProgress host settings bookResult sel existingManifest v
             = Some (Inr summary, st)"
  shows "(\<forall>k. rsSaves (fold (processPage host settings bookResult (existingManifest \<noteq> None))
                    (take k sel) (startState host bookResult sel existingManifest v)) = [])
       \<and> (let st1 = fold (processPage host settings bookResult (existingManifest \<noteq> None)) sel
                      (startState host bookResult sel existingManifest v);
               afterBatches = addHistoryEntry settings (nowISO host) (rsManifest st1) ActImport sel
                                (historyMessage (rsSummary st1))
           in importedPages afterBatches = importedPages (rsManifest st1)
            \<and> rsSaves st =
                (if processWithGeminiSetting settings \<and> rsImageFiles st1 \<noteq> []
                    \<and> geminiEnabled host \<and> geminiAccessible host
                 then [afterBatches, rsManifest st] else [afterBatches]))"
proof -
  let ?P = "processPage host settings bookResult (existingManifest \<noteq> None)"
  let ?st0 = "startState host bookResult sel existingManifest v"
  let ?st1 = "fold ?P sel ?st0"
  from run_cases[OF assms] have f: "finishRun host settings bookResult sel ?st1 = (Inr summary, st)"
    by auto
  note ff = finishRun_fields[OF f]
  have a: "\<forall>k. rsSaves (fold ?P (take k sel) ?st0) = []"
    by (simp add: fold_processPage_saves startState_fields)
  have sv: "rsSaves st =
           [addHistoryEntry settings (nowISO host) (rsManifest ?st1) ActImport sel
                (historyMessage (rsSummary ?st1))]
           @ (if processWithGeminiSetting settings \<and> rsImageFiles ?st1 \<noteq> []
                 \<and> geminiEnabled host \<and> geminiAccessible host
              then [rsManifest st] else [])"
    using ff by (simp add: fold_processPage_saves startState_fields)
  show ?thesis using a sv by (simp add: Let_def addHistoryEntry_importedPages)
qed

theorem manifest_saved_after_batches_witness:
  "\<exists>summary st.
     importSelectedPagesWithProgress exampleHost exampleSettings
       (exampleBook [examplePage 1 ''aa'']) [1] None (\<lambda>p. None) = Some (Inr summary, st)
     \<and> length (rsSaves st) = 1"
proof -
  let ?b = "exampleBook [examplePage 1 ''aa'']"
  have bs: "0 < batchSize exampleSettings" by (simp add: exampleSettings_def)
  from run_returns_summary[of exampleSettings exampleHost "\<lambda>p. None" ?b "[1]" None, OF bs]
  obtain summary st where run:
    "importSelectedPagesWithProgress exampleHost exampleSettings ?b [1] None (\<lambda>p. None)
       = Some (Inr summary, st)"
    by auto
  have ng: "\<not> processWithGeminiSetting exampleSettings" by (simp add: exampleSettings_def)
  from manifest_saved_after_batches[OF run] ng have "length (rsSaves st) = 1"
    by (simp add: Let_def)
  with run show ?thesis by blast
qed

text \<open>
  With the Gemini pass enabled, the plugin available and one new page, the run saves the
  manifest twice.
\<close>

theorem manifest_saved_twice_counterexample:
  "(case importSelectedPagesWithProgress exampleHost geminiSettings
           (exampleBook [examplePage 1 ''aa'']) [1] None (\<lambda>p. None) of
      Some (Inr summary, st) \<Rightarrow> length (rsSaves st) = 2
    | _ \<Rightarrow> False)"
proof -
  let ?b = "exampleBook [examplePage 1 ''aa'']"
  let ?st0 = "startState exampleHost ?b [1] None (\<lambda>p. None)"
  have bs: "0 < batchSize geminiSettings" by (simp add: geminiSettings_def exampleSettings_def)
  from run_returns_summary[of geminiSettings exampleHost "\<lambda>p. None" ?b "[1]" None, OF bs]
  obtain summary st where run:
    "importSelectedPagesWithProgress exampleHost geminiSettings ?b [1] None (\<lambda>p. None)
       = Some (Inr summary, st)"
    by auto
  have files: "rsImageFiles (processPage exampleHost geminiSettings ?b False 1 ?st0)
     = [(''Viwoods Notes/Book/Images/Book_page_001.png'', 1)]"
    by code_simp
  from run_cases[OF run] have
    f: "finishRun exampleHost geminiSettings ?b [1]
          (fold (processPage exampleHost geminiSettings ?b False) [1] ?st0)
        = (Inr summary, st)"
    by auto
  have g: "processWithGeminiSetting geminiSettings" "geminiEnabled exampleHost"
    "geminiAccessible exampleHost"
    by (simp_all add: geminiSettings_def exampleHost_def)
  let ?afterBatches = "fold (processPage exampleHost geminiSettings ?b False) [1] ?st0"
  have nofiles: "rsImageFiles ?afterBatches \<noteq> []" using files by simp
  have nosaves: "rsSaves ?afterBatches = []" by (simp add: processPage_saves startState_fields)
  from finishRun_fields[OF f] have "rsSaves st =
           rsSaves ?afterBatches
           @ [addHistoryEntry geminiSettings (nowISO exampleHost) (rsManifest ?afterBatches) ActImport [1]
                (historyMessage (rsSummary ?afterBatches))]
           @ (if processWithGeminiSetting geminiSettings \<and> rsImageFiles ?afterBatches \<noteq> []
                 \<and> geminiEnabled exampleHost \<and> geminiAccessible exampleHost
              then [rsManifest st] else [])" by blast
  then have "length (rsSaves st) = 2"
    unfolding nosaves using nofiles g by (simp only: if_True simp_thms) simp
  then show ?thesis unfolding run by (simp only: option.case prod.case sum.case)
qed

section \<open>When the image of a page is written\<close>

text \<open>
  Claim C6, amended. For a selected page of the book, the image step of the callback
  changes the vault only if the output format asks for an image and the page is new, or
  modified, or the background colour stored in its manifest entry differs from the current
  setting, or no file exists at the image path. For a page that is not new and not modified,
  whose stored background colour is the current one and whose image file exists, the image
  step leaves the vault as it is, and the callback as a whole leaves the image file with the
  content it had, provided the page document is not stored under the path of the image.
\<close>

theorem image_regeneration_conditions:
  fixes bookResult :: "'s BookResult" and page :: "'s PageData"
  assumes found: "find (\<lambda>p. pageNum p = n) (pages bookResult) = Some page"
  shows "(\<forall>isNew isModified existing v.
            snd (imageStep host settings bookResult page isNew isModified existing v) \<noteq> v \<longrightarrow>
              (outputFormat settings = Png \<or> outputFormat settings = Both)
              \<and> (isNew \<or> isModified \<or> backgroundChangedOf settings existing
                   \<or> \<not> isTFile v (imagePathOf host settings (bookNameOf bookResult) n)))
       \<and> (\<forall>info img.
            existingEntry hadManifest st n = Some info
            \<and> imageHash info = imageHashNew (pageImage page)
            \<and> backgroundColor info = Some (settingsBackgroundColor settings)
            \<and> rsVault st (imagePathOf host settings (bookNameOf bookResult) n) = Some img
            \<and> pagePathOf settings (bookNameOf bookResult) n
                 \<noteq> imagePathOf host settings (bookNameOf bookResult) n
            \<longrightarrow>
              (\<forall>v. isTFile v (imagePathOf host settings (bookNameOf bookResult) n) \<longrightarrow>
                 snd (imageStep host settings bookResult page False False (Some info) v) = v)
              \<and> rsVault (processPage host settings bookResult hadManifest n st)
                   (imagePathOf host settings (bookNameOf bookResult) n) = Some img)"
proof -
  from find_Some_set[OF found] have pn: "pageNum page = n" by simp
  let ?p = "imagePathOf host settings (bookNameOf bookResult) n"
  have onlyif: "\<forall>isNew isModified existing v.
            snd (imageStep host settings bookResult page isNew isModified existing v) \<noteq> v \<longrightarrow>
              (outputFormat settings = Png \<or> outputFormat settings = Both)
              \<and> (isNew \<or> isModified \<or> backgroundChangedOf settings existing
                   \<or> \<not> isTFile v ?p)"
    using imageStep_writes_only_if[of host settings bookResult page] unfolding pn by blast
  have frame: "(\<forall>v. isTFile v ?p \<longrightarrow>
                 snd (imageStep host settings bookResult page False False (Some info) v) = v)
              \<and> rsVault (processPage host settings bookResult hadManifest n st) ?p = Some img"
    if e: "existingEntry hadManifest st n = Some info"
      and h: "imageHash info = imageHashNew (pageImage page)"
      and b: "backgroundColor info = Some (settingsBackgroundColor settings)"
      and i: "rsVault st ?p = Some img"
      and ne: "pagePathOf settings (bookNameOf bookResult) n \<noteq> ?p"
    for info img
  proof -
    have bg: "\<not> backgroundChangedOf settings (Some info)"
      using b by (simp add: backgroundChangedOf_def)
    have step: "\<forall>v. isTFile v ?p \<longrightarrow>
                 snd (imageStep host settings bookResult page False False (Some info) v) = v"
      using imageStep_untouched[of _ host settings bookResult page "Some info"] bg
      unfolding pn by blast
    have t: "pageTry host settings bookResult hadManifest page st
               = pageBody host settings bookResult (totalPages (rsManifest st)) page False False
                   (Some info) (rsVault st)"
      using e h by (simp add: pageTry_def Let_def pn)
    have "rsVault (processPage host settings bookResult hadManifest n st) ?p
            = snd (snd (pageBody host settings bookResult (totalPages (rsManifest st)) page
                          False False (Some info) (rsVault st))) ?p"
      unfolding processPage_vault[OF found] t ..
    also have "\<dots> = Some img"
      using pageBody_frame[of "rsVault st" host settings bookResult page img "Some info"] i bg ne
      unfolding pn by blast
    finally show ?thesis using step by simp
  qed
  from onlyif frame show ?thesis by blast
qed

theorem image_regeneration_conditions_witness:
  "existingEntry True
       (startState exampleHost (exampleBook [examplePage 1 ''aa'']) [1]
          (Some (exampleManifest [(1, unchangedInfo)])) exampleVaultWithImage) 1
     = Some unchangedInfo
   \<and> rsVault
       (processPage exampleHost exampleSettings (exampleBook [examplePage 1 ''aa'']) True 1
          (startState exampleHost (exampleBook [examplePage 1 ''aa'']) [1]
             (Some (exampleManifest [(1, unchangedInfo)])) exampleVaultWithImage))
       ''Viwoods Notes/Book/Images/Book_page_001.png'' = Some ''old image''
   \<and> snd (imageStep exampleHost exampleSettings (exampleBook [examplePage 1 ''aa''])
            (examplePage 1 ''aa'') False False (Some unchangedInfo) (\<lambda>p. None)) \<noteq> (\<lambda>p. None)
   \<and> \<not> isTFile (\<lambda>p. None)
          (imagePathOf exampleHost exampleSettings (bookNameOf (exampleBook [examplePage 1 ''aa''])) 1)"
proof -
  let ?b = "exampleBook [examplePage 1 ''aa'']"
  let ?st = "startState exampleHost ?b [1] (Some (exampleManifest [(1, unchangedInfo)]))
               exampleVaultWithImage"
  let ?p = "imagePathOf exampleHost exampleSettings (bookNameOf ?b) 1"
  have found: "find (\<lambda>p. pageNum p = 1) (pages ?b) = Some (examplePage 1 ''aa'')"
    by (simp add: exampleBook_def examplePage_def)
  have p: "?p = ''Viwoods Notes/Book/Images/Book_page_001.png''" by code_simp
  have e: "existingEntry True ?st 1 = Some unchangedInfo" by code_simp
  have h: "imageHash unchangedInfo = imageHashNew (pageImage (examplePage 1 ''aa''))" by code_simp
  have b: "backgroundColor unchangedInfo = Some (settingsBackgroundColor exampleSettings)"
    by code_simp
  have i: "rsVault ?st ?p = Some ''old image''" by code_simp
  have ne: "pagePathOf exampleSettings (bookNameOf ?b) 1 \<noteq> ?p" by code_simp
  have w: "snd (imageStep exampleHost exampleSettings ?b (examplePage 1 ''aa'') False False
                  (Some unchangedInfo) (\<lambda>p. None)) ?p = Some ''img''"
    by code_simp
  then have ch: "snd (imageStep exampleHost exampleSettings ?b (examplePage 1 ''aa'') False False
                  (Some unchangedInfo) (\<lambda>p. None)) \<noteq> (\<lambda>p. None)"
    by (auto dest: fun_cong[where x = ?p])
  note inst = image_regeneration_conditions[OF found, of exampleHost exampleSettings True ?st]
  have hyps: "existingEntry True ?st 1 = Some unchangedInfo
            \<and> imageHash unchangedInfo = imageHashNew (pageImage (examplePage 1 ''aa''))
            \<and> backgroundColor unchangedInfo = Some (settingsBackgroundColor exampleSettings)
            \<and> rsVault ?st ?p = Some ''old image''
            \<and> pagePathOf exampleSettings (bookNameOf ?b) 1 \<noteq> ?p"
    using e h b i ne by (intro conjI)
  from inst[THEN conjunct2, rule_format, of unchangedInfo "''old image''", OF hyps]
  have kept: "rsVault (processPage exampleHost exampleSettings ?b True 1 ?st) ?p = Some ''old image''"
    by (rule conjunct2)
  have nbg: "\<not> backgroundChangedOf exampleSettings (Some unchangedInfo)"
    using b by (simp add: backgroundChangedOf_def)
  from inst[THEN conjunct1, rule_format, of False False "Some unchangedInfo" "\<lambda>p. None", OF ch]
  have missing: "\<not> isTFile (\<lambda>p. None) ?p"
    using nbg by simp
  from e kept[unfolded p] ch missing show ?thesis by (intro conjI)
qed

text \<open>
  The claim as first stated lets the image be written only for a new or modified page or a
  changed background colour. Here page 1 is in the manifest with the fingerprint of the book
  and the current background colour, so it is neither; its page document exists, its image
  file does not. The run counts the page as unchanged and writes the image.
\<close>

theorem image_written_when_missing_counterexample:
  "backgroundColor unchangedInfo = Some (settingsBackgroundColor exampleSettings)
   \<and> exampleVault ''aa'' ''Viwoods Notes/Book/Images/Book_page_001.png'' = None
   \<and> (case importSelectedPagesWithProgress exampleHost exampleSettings
              (exampleBook [examplePage 1 ''aa'']) [1]
              (Some (exampleManifest [(1, unchangedInfo)])) (exampleVault ''aa'') of
         Some (Inr summary, st) \<Rightarrow>
           unchangedPages summary = [1] \<and> newPages summary = [] \<and> modifiedPages summary = []
           \<and> rsVault st ''Viwoods Notes/Book/Images/Book_page_001.png'' = Some ''img''
       | _ \<Rightarrow> False)"
proof -
  let ?b = "exampleBook [examplePage 1 ''aa'']"
  let ?m = "exampleManifest [(1, unchangedInfo)]"
  let ?st1 = "fold (processPage exampleHost exampleSettings ?b (Some ?m \<noteq> None)) [1]
                (startState exampleHost ?b [1] (Some ?m) (exampleVault ''aa''))"
  have bs: "0 < batchSize exampleSettings" by (simp add: exampleSettings_def)
  from run_returns_summary[of exampleSettings exampleHost "exampleVault ''aa''" ?b "[1]" "Some ?m",
      OF bs]
  obtain st where run:
    "importSelectedPagesWithProgress exampleHost exampleSettings ?b [1] (Some ?m)
       (exampleVault ''aa'') = Some (Inr (rsSummary ?st1), st)"
    by auto
  from run_cases[OF run] have st: "st = snd (finishRun exampleHost exampleSettings ?b [1] ?st1)"
    by (auto dest: arg_cong[where f = snd])
  have s: "unchangedPages (rsSummary ?st1) = [1]" "newPages (rsSummary ?st1) = []"
    "modifiedPages (rsSummary ?st1) = []"
    by code_simp+
  have b: "backgroundColor unchangedInfo = Some (settingsBackgroundColor exampleSettings)"
    by code_simp
  have v0: "exampleVault ''aa'' ''Viwoods Notes/Book/Images/Book_page_001.png'' = None"
    by code_simp
  have v1: "rsVault (snd (finishRun exampleHost exampleSettings ?b [1] ?st1))
              ''Viwoods Notes/Book/Images/Book_page_001.png'' = Some ''img''"
    by code_simp
  have after: "unchangedPages (rsSummary ?st1) = [1] \<and> newPages (rsSummary ?st1) = []
      \<and> modifiedPages (rsSummary ?st1) = []
      \<and> rsVault st ''Viwoods Notes/Book/Images/Book_page_001.png'' = Some ''img''"
    using s v1 unfolding st by (intro conjI)
  have "case importSelectedPagesWithProgress exampleHost exampleSettings ?b [1] (Some ?m)
               (exampleVault ''aa'') of
          Some (Inr summary, st) \<Rightarrow>
            unchangedPages summary = [1] \<and> newPages summary = [] \<and> modifiedPages summary = []
            \<and> rsVault st ''Viwoods Notes/Book/Images/Book_page_001.png'' = Some ''img''
        | _ \<Rightarrow> False"
    unfolding run using after by (simp only: option.case prod.case sum.case)
  with b v0 show ?thesis by (intro conjI)
qed

section \<open>History cap\<close>

text \<open>
  Claim C7. With history keeping enabled and a history that already holds at least
  \<open>maxHistoryEntries\<close> entries, \<open>addHistoryEntry\<close> leaves exactly
  \<open>maxHistoryEntries\<close> entries: the new entry first, followed by the leading (newest)
  entries of the old history in their order; the trailing (oldest) entries are dropped, at
  least one of them.
\<close>

theorem history_cap:
  assumes "keepHistory settings"
    and "maxHistoryEntries settings \<le> length (historyOf manifest)"
  shows "historyOf (addHistoryEntry settings now manifest action pgs summ)
           = take (maxHistoryEntries settings)
               (\<lparr> histDate = now, histAction = action, histPages = pgs, histSummary = summ \<rparr>
                  # historyOf manifest)
       \<and> length (historyOf (addHistoryEntry settings now manifest action pgs summ))
           = maxHistoryEntries settings
       \<and> (0 < maxHistoryEntries settings \<longrightarrow>
            historyOf (addHistoryEntry settings now manifest action pgs summ)
              = \<lparr> histDate = now, histAction = action, histPages = pgs, histSummary = summ \<rparr>
                  # take (maxHistoryEntries settings - 1) (historyOf manifest)
            \<and> length (take (maxHistoryEntries settings - 1) (historyOf manifest))
                < length (historyOf manifest))"
proof -
  let ?e = "\<lparr> histDate = now, histAction = action, histPages = pgs, histSummary = summ \<rparr>"
  let ?k = "maxHistoryEntries settings"
  have r: "historyOf (addHistoryEntry settings now manifest action pgs summ)
             = take ?k (?e # historyOf manifest)"
    using assms by (simp add: addHistoryEntry_def historyOf_def Let_def split: option.splits)
  have l: "length (take ?k (?e # historyOf manifest)) = ?k" using assms(2) by simp
  have c: "0 < ?k \<Longrightarrow> take ?k (?e # historyOf manifest) = ?e # take (?k - 1) (historyOf manifest)"
    by (cases ?k) simp_all
  have d: "0 < ?k \<Longrightarrow> length (take (?k - 1) (historyOf manifest)) < length (historyOf manifest)"
    using assms(2) by simp
  show ?thesis using r l c d by simp
qed


theorem history_cap_witness:
  "keepHistory (exampleSettings \<lparr> maxHistoryEntries := 2 \<rparr>)
   \<and> historyOf (addHistoryEntry (exampleSettings \<lparr> maxHistoryEntries := 2 \<rparr>) ''2025-03-01''
        ((exampleManifest []) \<lparr> history := Some [exampleHistory ''2025-02-01'', exampleHistory ''2025-01-01''] \<rparr>)
        ActImport [2] ''Imported 1 new, 0 modified pages'')
     = [\<lparr> histDate = ''2025-03-01'', histAction = ActImport, histPages = [2],
          histSummary = ''Imported 1 new, 0 modified pages'' \<rparr>,
        exampleHistory ''2025-02-01'']"
proof -
  let ?s = "exampleSettings \<lparr> maxHistoryEntries := 2 \<rparr>"
  let ?m = "(exampleManifest []) \<lparr> history := Some [exampleHistory ''2025-02-01'', exampleHistory ''2025-01-01''] \<rparr>"
  have h1: "keepHistory ?s" by (simp add: exampleSettings_def)
  have h2: "maxHistoryEntries ?s \<le> length (historyOf ?m)" by (simp add: historyOf_def)
  have h3: "historyOf ?m = [exampleHistory ''2025-02-01'', exampleHistory ''2025-01-01'']"
    by (simp add: historyOf_def)
  from history_cap[OF h1 h2, of "''2025-03-01''" ActImport "[2]" "''Imported 1 new, 0 modified pages''"]
  show ?thesis using h1 unfolding h3 by simp
qed

section \<open>Fallback fingerprints\<close>

text \<open>
  Claim C8, as the code has it. When the digest fails, \<open>hashImageData\<close> returns
  \<open>fallback-\<close> followed by the byte length, padded with zeros to 32 characters. That
  fingerprint differs from every real digest, none of which starts with \<open>fallback-\<close>.
  The comparison in \<open>analyzeChanges\<close> treats it like any other fingerprint: a page
  whose baseline is a fallback fingerprint is unchanged exactly when its fresh fingerprint
  is the same string, and modified otherwise.
\<close>

theorem fallback_fingerprint:
  assumes "digest b = None"
  shows "startsWith (hashImageData digest b) ''fallback-''
       \<and> length (hashImageData digest b) = 32
       \<and> hashImageData digest b
           = substring0 32 (padEnd 32 (CHR ''0'') (''fallback-'' @ String (length b)))
       \<and> (\<forall>digest' b' hashBuffer. digest' b' = Some hashBuffer \<longrightarrow>
             \<not> startsWith (hashImageData digest' b') ''fallback-''
             \<and> hashImageData digest' b' \<noteq> hashImageData digest b)
       \<and> (\<forall>fl v settings (bookResult :: 's BookResult) manifest changes summary n existing page.
             analyzeChanges fl v settings bookResult (Some manifest) = (changes, summary)
             \<and> mapGet (buildExistingMap fl v (bookFolderOf settings (bookNameOf bookResult))
                        (importedPages manifest)) n = Some existing
             \<and> existingHashOf existing = hashImageData digest b
             \<and> find (\<lambda>p. pageNum p = n) (pages bookResult) = Some page
             \<longrightarrow> (\<exists>c\<in>set changes. changePageNum c = n
                     \<and> oldHash c = Some (hashImageData digest b)
                     \<and> changeType c =
                         (if imageHashNew (pageImage page) = hashImageData digest b
                          then Unchanged else Modified))
                 \<and> (if imageHashNew (pageImage page) = hashImageData digest b
                     then n \<in> set (unchangedPages summary)
                     else n \<in> set (modifiedPages summary)))"
proof -
  let ?h = "hashImageData digest b"
  have p: "startsWith ?h ''fallback-''" using assms by (rule fallback_prefix)
  have l: "length ?h = 32" using assms by (rule fallback_length)
  have d: "?h = substring0 32 (padEnd 32 (CHR ''0'') (''fallback-'' @ String (length b)))"
    using assms by (simp add: hashImageData_def)
  have r: "\<not> startsWith (hashImageData digest' b') ''fallback-''
             \<and> hashImageData digest' b' \<noteq> ?h"
    if "digest' b' = Some hashBuffer" for digest' b' hashBuffer
  proof -
    have hx: "\<forall>c\<in>set (hashImageData digest' b'). isHexDigit c"
      using that by (rule digest_hex)
    with fallback_prefix_not_hex(1) have "\<not> startsWith (hashImageData digest' b') ''fallback-''"
      by blast
    with p show ?thesis by auto
  qed
  have a: "(\<exists>c\<in>set changes. changePageNum c = n \<and> oldHash c = Some ?h
                     \<and> changeType c =
                         (if imageHashNew (pageImage page) = ?h then Unchanged else Modified))
                 \<and> (if imageHashNew (pageImage page) = ?h
                     then n \<in> set (unchangedPages summary)
                     else n \<in> set (modifiedPages summary))"
    if an: "analyzeChanges fl v settings bookResult (Some manifest) = (changes, summary)"
      and get: "mapGet (buildExistingMap fl v (bookFolderOf settings (bookNameOf bookResult))
                        (importedPages manifest)) n = Some existing"
      and eh: "existingHashOf existing = ?h"
      and fi: "find (\<lambda>p. pageNum p = n) (pages bookResult) = Some page"
    for fl v settings and bookResult :: "'s BookResult" and manifest changes summary n existing
      and page :: "'s PageData"
  proof -
    let ?m = "buildExistingMap fl v (bookFolderOf settings (bookNameOf bookResult)) (importedPages manifest)"
    obtain rem ch s where f: "fold checkPage (pages bookResult)
        (?m, [], emptySummary (length (pages bookResult))) = (rem, ch, s)"
      by (cases "fold checkPage (pages bookResult) (?m, [], emptySummary (length (pages bookResult)))")
    from analyzeChanges_Some[OF f] an have
      chg: "set ch \<subseteq> set changes"
      and sm: "modifiedPages summary = modifiedPages s" "unchangedPages summary = unchangedPages s"
      by auto
    from fallback_prefix_not_hex(2,3)[OF p] have ns:
      "\<not> startsWith ?h ''recovered-''" "\<not> startsWith ?h ''RESET-''" .
    have cond: "(startsWith ?h ''recovered-'' \<or> startsWith ?h ''RESET-''
                  \<or> ?h \<noteq> imageHashNew (pageImage page))
                = (imageHashNew (pageImage page) \<noteq> ?h)"
      using ns by auto
    from fold_checkPage_first[OF f fi get] have
      ex: "\<exists>c\<in>set ch. changePageNum c = n \<and> oldHash c = Some ?h
           \<and> newHash c = Some (imageHashNew (pageImage page))
           \<and> changeType c = (if imageHashNew (pageImage page) \<noteq> ?h then Modified else Unchanged)"
      and mem: "if imageHashNew (pageImage page) \<noteq> ?h
                then n \<in> set (modifiedPages s) else n \<in> set (unchangedPages s)"
      unfolding eh cond by blast+
    from ex obtain c where c: "c \<in> set ch" "changePageNum c = n" "oldHash c = Some ?h"
      "changeType c = (if imageHashNew (pageImage page) \<noteq> ?h then Modified else Unchanged)"
      by blast
    have c': "changeType c = (if imageHashNew (pageImage page) = ?h then Unchanged else Modified)"
      using c(4) by simp
    have mem': "if imageHashNew (pageImage page) = ?h
                then n \<in> set (unchangedPages summary) else n \<in> set (modifiedPages summary)"
      using mem unfolding sm by (simp split: if_splits)
    from c(1) chg have "c \<in> set changes" by blast
    with c(2,3) c' mem' show ?thesis by blast
  qed
  have r': "\<forall>digest' b' hashBuffer. digest' b' = Some hashBuffer \<longrightarrow>
             \<not> startsWith (hashImageData digest' b') ''fallback-''
             \<and> hashImageData digest' b' \<noteq> ?h"
    by (intro allI impI) (rule r)
  have a': "\<forall>fl v settings (bookResult :: 's BookResult) manifest changes summary n existing page.
             analyzeChanges fl v settings bookResult (Some manifest) = (changes, summary)
             \<and> mapGet (buildExistingMap fl v (bookFolderOf settings (bookNameOf bookResult))
                        (importedPages manifest)) n = Some existing
             \<and> existingHashOf existing = ?h
             \<and> find (\<lambda>p. pageNum p = n) (pages bookResult) = Some page
             \<longrightarrow> (\<exists>c\<in>set changes. changePageNum c = n
                     \<and> oldHash c = Some ?h
                     \<and> changeType c =
                         (if imageHashNew (pageImage page) = ?h
                          then Unchanged else Modified))
                 \<and> (if imageHashNew (pageImage page) = ?h
                     then n \<in> set (unchangedPages summary)
                     else n \<in> set (modifiedPages summary))"
    by (intro allI impI, elim conjE) (rule a; assumption)
  from p l d r' a' show ?thesis by (intro conjI)
qed

theorem fallback_fingerprint_witness:
  "(\<lambda>b::blob. None :: string option) ''abc'' = None
   \<and> hashImageData (\<lambda>b. None) ''abc'' = ''fallback-30000000000000000000000''
   \<and> startsWith ''fallback-30000000000000000000000'' ''fallback-''
   \<and> hashImageData (\<lambda>b. Some [CHR 0xAB, CHR 0x01]) ''abc'' = ''ab01''
   \<and> ''ab01'' \<noteq> ''fallback-30000000000000000000000''"
proof -
  have h: "(\<lambda>b::blob. None :: string option) ''abc'' = None" by simp
  have e1: "hashImageData (\<lambda>b. None) ''abc'' = ''fallback-30000000000000000000000''" by code_simp
  have e2: "hashImageData (\<lambda>b. Some [CHR 0xAB, CHR 0x01]) ''abc'' = ''ab01''" by code_simp
  have e3: "(\<lambda>b::blob. Some [CHR 0xAB, CHR 0x01]) ''abc'' = Some [CHR 0xAB, CHR 0x01]" by simp
  note w = fallback_fingerprint[where digest = "\<lambda>b. None" and b = "''abc''", OF h]
  have s1: "startsWith (hashImageData (\<lambda>b. None) ''abc'') ''fallback-''"
    using w by (rule conjunct1)
  note q = w[THEN conjunct2, THEN conjunct2, THEN conjunct2, THEN conjunct1, rule_format,
             where digest' = "\<lambda>b. Some [CHR 0xAB, CHR 0x01]" and b' = "''abc''", OF e3]
  have s2: "hashImageData (\<lambda>b. Some [CHR 0xAB, CHR 0x01]) ''abc'' \<noteq> hashImageData (\<lambda>b. None) ''abc''"
    using q by (rule conjunct2)
  from s1 s2 h show ?thesis unfolding e1 e2 by simp
qed

text \<open>
  Two different blobs of the same byte length whose digests both fail get the same fallback
  fingerprint, and the analyzer classifies the page as unchanged.
\<close>

theorem fallback_match_counterexample:
  "hashImageData (\<lambda>b. None) ''abc'' = hashImageData (\<lambda>b. None) ''xyz''
   \<and> ''abc'' \<noteq> ''xyz''
   \<and> analyzeChanges noFaults (\<lambda>p. None) exampleSettings
        (exampleBook [decodedPage (\<lambda>b. None) 1 ''xyz''])
        (Some (exampleManifest [(1, examplePageInfo (hashImageData (\<lambda>b. None) ''abc''))]))
     = ([\<lparr> changePageNum = 1, changeType = Unchanged,
           oldHash = Some ''fallback-30000000000000000000000'',
           newHash = Some ''fallback-30000000000000000000000'', hasAudioChange = None \<rparr>],
        \<lparr> summaryTotalPages = 1, newPages = [], modifiedPages = [], unchangedPages = [1],
          deletedPages = [], errors = [] \<rparr>)"
  by code_simp

section \<open>The page count of the manifest never goes down\<close>

text \<open>
  Claim C9. After a run that returns its summary, \<open>totalPages\<close> of the manifest is the
  maximum of its previous value (zero without a manifest) and the number of pages of the
  decoded book, so it is never lower than before; the run has saved the manifest, and
  every saved manifest carries that value.
\<close>

theorem totalPages_never_lowered:
  fixes bookResult :: "'s BookResult"
  assumes "importSelectedPagesWithProgress host settings bookResult sel existingManifest v
             = Some (Inr summary, st)"
  shows "totalPages (rsManifest st)
           = max (case existingManifest of Some m \<Rightarrow> totalPages m | None \<Rightarrow> 0)
               (length (pages bookResult))
       \<and> (case existingManifest of Some m \<Rightarrow> totalPages m | None \<Rightarrow> 0)
           \<le> totalPages (rsManifest st)
       \<and> rsSaves st \<noteq> []
       \<and> (\<forall>saved\<in>set (rsSaves st). totalPages saved = totalPages (rsManifest st))"
proof -
  let ?P = "processPage host settings bookResult (existingManifest \<noteq> None)"
  let ?st0 = "startState host bookResult sel existingManifest v"
  let ?st1 = "fold ?P sel ?st0"
  from run_cases[OF assms] have f: "finishRun host settings bookResult sel ?st1 = (Inr summary, st)"
    by auto
  note ff = finishRun_fields[OF f]
  have t1: "totalPages (rsManifest ?st1)
      = max (case existingManifest of Some m \<Rightarrow> totalPages m | None \<Rightarrow> 0) (length (pages bookResult))"
    by (simp add: fold_processPage_totalPages startState_fields)
  have t: "totalPages (rsManifest st)
      = max (case existingManifest of Some m \<Rightarrow> totalPages m | None \<Rightarrow> 0) (length (pages bookResult))"
    using ff t1 by simp
  have sv: "rsSaves st =
           [addHistoryEntry settings (nowISO host) (rsManifest ?st1) ActImport sel
                (historyMessage (rsSummary ?st1))]
           @ (if processWithGeminiSetting settings \<and> rsImageFiles ?st1 \<noteq> []
                 \<and> geminiEnabled host \<and> geminiAccessible host
              then [rsManifest st] else [])"
    using ff by (simp add: fold_processPage_saves startState_fields)
  have ne: "rsSaves st \<noteq> []" using sv by simp
  have al: "\<forall>saved\<in>set (rsSaves st). totalPages saved = totalPages (rsManifest st)"
    using sv ff by (auto simp: addHistoryEntry_totalPages split: if_splits)
  from t ne al show ?thesis by simp
qed

theorem totalPages_never_lowered_witness:
  "\<exists>summary st.
     importSelectedPagesWithProgress exampleHost exampleSettings
       (exampleBook [examplePage 1 ''aa'']) [1]
       (Some ((exampleManifest [(1, examplePageInfo ''aa''), (2, examplePageInfo ''bb'')])
                \<lparr> totalPages := 5 \<rparr>))
       (\<lambda>p. None) = Some (Inr summary, st)
     \<and> totalPages (rsManifest st) = 5"
proof -
  let ?m = "(exampleManifest [(1, examplePageInfo ''aa''), (2, examplePageInfo ''bb'')])
                \<lparr> totalPages := 5 \<rparr>"
  let ?b = "exampleBook [examplePage 1 ''aa'']"
  have bs: "0 < batchSize exampleSettings" by (simp add: exampleSettings_def)
  from run_returns_summary[of exampleSettings exampleHost "\<lambda>p. None" ?b "[1]" "Some ?m", OF bs]
  obtain summary st where run:
    "importSelectedPagesWithProgress exampleHost exampleSettings ?b [1] (Some ?m) (\<lambda>p. None)
       = Some (Inr summary, st)"
    by auto
  from totalPages_never_lowered[OF run] have "totalPages (rsManifest st) = 5"
    by (simp add: exampleBook_def)
  with run show ?thesis by blast
qed

end
